theory Spec2Isabelle
  imports Main "HOL-Library.Word" "HOL-Library.Multiset"
begin

unbundle bit_operations_syntax

chapter \<open>The passes of \<^verbatim>\<open>elf/passes.cc\<close>\<close>

section \<open>Machine integers and C++ library functions\<close>

type_synonym u16 = "16 word"
type_synonym u64 = "64 word"

text \<open>
  The exceptions that \<^verbatim>\<open>std::stoull\<close> and \<^verbatim>\<open>std::stoi\<close> throw. Nothing in
  \<^verbatim>\<open>passes.cc\<close> catches them, so a throw ends the pass that made the call.
\<close>

datatype cxx_exception = invalid_argument | out_of_range

text \<open>
  The value of a character as a digit, as \<^verbatim>\<open>strtoull\<close> reads it: \<^verbatim>\<open>0-9\<close>, then
  the letters of either case for 10 to 35; 36 for every other character, which is a digit in
  no base.
\<close>

definition digit_of :: "char \<Rightarrow> nat" where
  "digit_of c =
     (let n = (of_char c :: nat)
      in if 48 \<le> n \<and> n \<le> 57 then n - 48
         else if 97 \<le> n \<and> n \<le> 122 then n - 87
         else if 65 \<le> n \<and> n \<le> 90 then n - 55
         else 36)"

definition digits_value :: "nat \<Rightarrow> string \<Rightarrow> nat" where
  "digits_value base ds = foldl (\<lambda>a c. a * base + digit_of c) 0 ds"

definition is_space :: "char \<Rightarrow> bool" where
  "is_space c = (let n = (of_char c :: nat) in n = 32 \<or> (9 \<le> n \<and> n \<le> 13))"

definition starts_with :: "string \<Rightarrow> string \<Rightarrow> bool" where
  "starts_with s p = (take (length p) s = p)"

text \<open>
  \<^verbatim>\<open>std::stoull(str, &nread, base)\<close> for base 10 and 16, after \<^verbatim>\<open>strtoull\<close>:
  leading white space and one sign are skipped, base 16 skips a \<^verbatim>\<open>0x\<close> that a
  hexadecimal digit follows, then the longest run of digits is read. No digit at all throws
  \<^verbatim>\<open>std::invalid_argument\<close>, a value that does not fit 64 bits throws
  \<^verbatim>\<open>std::out_of_range\<close>. The result is the value and the number of characters read.
\<close>

definition stoull :: "string \<Rightarrow> nat \<Rightarrow> cxx_exception + (u64 \<times> nat)" where
  "stoull str base =
     (let ws = takeWhile is_space str;
          s1 = dropWhile is_space str;
          neg = starts_with s1 ''-'';
          nsign = (if starts_with s1 ''-'' \<or> starts_with s1 ''+'' then 1 else 0);
          s2 = drop nsign s1;
          npfx = (if base = 16 \<and> (starts_with s2 ''0x'' \<or> starts_with s2 ''0X'')
                     \<and> (case drop 2 s2 of [] \<Rightarrow> False | c # _ \<Rightarrow> digit_of c < 16)
                  then 2 else 0);
          ds = takeWhile (\<lambda>c. digit_of c < base) (drop npfx s2);
          v = digits_value base ds
      in if ds = [] then Inl invalid_argument
         else if 2 ^ 64 \<le> v then Inl out_of_range
         else Inr (if neg then - of_nat v else of_nat v,
                   length ws + nsign + npfx + length ds))"

text \<open>
  \<^verbatim>\<open>s.find_first_not_of(chars)\<close>: the index of the first character of \<open>s\<close> that is
  not in \<open>chars\<close>; \<open>None\<close> is \<^verbatim>\<open>npos\<close>.
\<close>

fun find_first_not_of :: "string \<Rightarrow> string \<Rightarrow> nat option" where
  "find_first_not_of [] chars = None"
| "find_first_not_of (c # s) chars =
     (if c \<in> set chars then map_option Suc (find_first_not_of s chars) else Some 0)"

section \<open>\<^verbatim>\<open>parse_defsym_addr\<close>\<close>

text \<open>
  The right-hand side of \<^verbatim>\<open>--defsym=name=value\<close>. \<open>Inr None\<close> is the empty
  \<^verbatim>\<open>std::optional\<close>, \<open>Inl e\<close> an exception that leaves the function.
\<close>

definition parse_defsym_addr :: "string \<Rightarrow> cxx_exception + u64 option" where
  "parse_defsym_addr s =
     (if starts_with s ''0x'' \<or> starts_with s ''0X'' then
        (case stoull s 16 of
           Inl e \<Rightarrow> Inl e
         | Inr (addr, nread) \<Rightarrow> if length s \<noteq> nread then Inr None else Inr (Some addr))
      else if find_first_not_of s ''0123456789'' = None then
        (case stoull s 10 of
           Inl e \<Rightarrow> Inl e
         | Inr (addr, nread) \<Rightarrow> Inr (Some addr))
      else Inr None)"

section \<open>\<^verbatim>\<open>create_synthetic_sections\<close>\<close>

text \<open>
  The chunk table as \<^verbatim>\<open>create_synthetic_sections\<close> sees it: every chunk it makes is
  an object of a class of its own, so a chunk is identified by its class (\<open>DynbssSection\<close>
  with its constructor argument, \<^verbatim>\<open>true\<close> for \<^verbatim>\<open>.dynbss.rel.ro\<close>). The classes are, in
  the order of the function, the ELF, program and section headers, \<^verbatim>\<open>.got\<close>,
  \<^verbatim>\<open>.got.plt\<close>, \<^verbatim>\<open>.rela.dyn\<close>, \<^verbatim>\<open>.rela.plt\<close>, \<^verbatim>\<open>.strtab\<close>,
  \<^verbatim>\<open>.shstrtab\<close>, \<^verbatim>\<open>.plt\<close>, \<^verbatim>\<open>.plt.got\<close>, \<^verbatim>\<open>.symtab\<close>, \<^verbatim>\<open>.dynsym\<close>,
  \<^verbatim>\<open>.dynstr\<close>, \<^verbatim>\<open>.eh_frame\<close>, \<^verbatim>\<open>.dynbss\<close>, \<^verbatim>\<open>.interp\<close>,
  \<^verbatim>\<open>.note.gnu.build-id\<close>, \<^verbatim>\<open>.eh_frame_hdr\<close>, \<^verbatim>\<open>.hash\<close>, \<^verbatim>\<open>.gnu.hash\<close>,
  \<^verbatim>\<open>.gnu.version_d\<close>, \<^verbatim>\<open>.dynamic\<close>, \<^verbatim>\<open>.gnu.version\<close>, \<^verbatim>\<open>.gnu.version_r\<close>,
  \<^verbatim>\<open>.note.gnu.property\<close> and the repro section.
\<close>

datatype synthetic_chunk =
    OutputEhdr | OutputPhdr | OutputShdr | GotSection | GotPltSection | RelDynSection
  | RelPltSection | StrtabSection | ShstrtabSection | PltSection | PltGotSection
  | SymtabSection | DynsymSection | DynstrSection | EhFrameSection | DynbssSection bool
  | InterpSection | BuildIdSection | EhFrameHdrSection | HashSection | GnuHashSection
  | VerdefSection | DynamicSection | VersymSection | VerneedSection | NotePropertySection
  | ReproSection

datatype build_id_kind = NONE | HEX | HASH | UUID

text \<open>The options of \<^verbatim>\<open>ctx.arg\<close> that the function reads.\<close>

record synthetic_args =
  dynamic_linker :: string
  build_id :: build_id_kind
  eh_frame_hdr :: bool
  hash_style_sysv :: bool
  hash_style_gnu :: bool
  version_definitions :: "string list"
  repro :: bool

text \<open>\<open>add_if b c\<close> is \<^verbatim>\<open>if (b) add(c)\<close> on the chunk table.\<close>

definition add_if :: "bool \<Rightarrow> synthetic_chunk \<Rightarrow> synthetic_chunk list \<Rightarrow> synthetic_chunk list" where
  "add_if b c chunks = (if b then chunks @ [c] else chunks)"

definition create_synthetic_sections ::
  "synthetic_args \<Rightarrow> synthetic_chunk list \<Rightarrow> synthetic_chunk list" where
  "create_synthetic_sections arg chunks =
     (let chunks = chunks @ [OutputEhdr, OutputPhdr, OutputShdr, GotSection, GotPltSection,
                     RelDynSection, RelPltSection, StrtabSection, ShstrtabSection, PltSection,
                     PltGotSection, SymtabSection, DynsymSection, DynstrSection,
                     EhFrameSection, DynbssSection False, DynbssSection True];
          chunks = add_if (dynamic_linker arg \<noteq> []) InterpSection chunks;
          chunks = add_if (build_id arg \<noteq> NONE) BuildIdSection chunks;
          chunks = add_if (eh_frame_hdr arg) EhFrameHdrSection chunks;
          chunks = add_if (hash_style_sysv arg) HashSection chunks;
          chunks = add_if (hash_style_gnu arg) GnuHashSection chunks;
          chunks = add_if (version_definitions arg \<noteq> []) VerdefSection chunks;
          chunks = chunks @ [DynamicSection, VersymSection, VerneedSection,
                     NotePropertySection];
          chunks = add_if (repro arg) ReproSection chunks
      in chunks)"

text \<open>Every option that guards a chunk switched off.\<close>

definition no_options :: synthetic_args where
  "no_options = \<lparr>dynamic_linker = [], build_id = NONE, eh_frame_hdr = False,
     hash_style_sysv = False, hash_style_gnu = False, version_definitions = [],
     repro = False\<rparr>"

text \<open>All of them switched on.\<close>

definition all_options :: synthetic_args where
  "all_options = \<lparr>dynamic_linker = ''/lib64/ld-linux-x86-64.so.2'', build_id = HASH,
     eh_frame_hdr = True, hash_style_sysv = True, hash_style_gnu = True,
     version_definitions = [''VER_1''], repro = True\<rparr>"



text \<open>
  Modelled from the spec: \<^verbatim>\<open>align_to\<close> is defined in \<^verbatim>\<open>mold.h\<close>, which is not among
  the sources. The spec has it round a value up to an alignment (``round \<^verbatim>\<open>addr\<close> up to
  page size'', ``round up to section alignment''). The arithmetic is that of \<^verbatim>\<open>u64\<close> and
  wraps around; an alignment of 0 constrains nothing, as for \<^verbatim>\<open>sh_addralign\<close> in ELF.
\<close>

definition align_to :: "u64 \<Rightarrow> u64 \<Rightarrow> u64" where
  "align_to val align = (if align = 0 then val else (val + align - 1) div align * align)"

section \<open>Sections and chunks\<close>

text \<open>The fields of an ELF section header (\<^verbatim>\<open>ElfShdr\<close>) that the passes read or write.\<close>

record elf_shdr =
  sh_type :: "32 word"
  sh_flags :: u64
  sh_addr :: u64
  sh_offset :: u64
  sh_size :: u64
  sh_addralign :: u64

text \<open>
  An \<^verbatim>\<open>InputSection\<close>: its \<^verbatim>\<open>name()\<close>, its section header \<^verbatim>\<open>shdr\<close> and the
  \<^verbatim>\<open>offset\<close> it gets in its output section (an \<^verbatim>\<open>i64\<close>, kept as its 64 bits).
\<close>

record input_section =
  isec_name :: string
  isec_shdr :: elf_shdr
  offset :: u64

text \<open>A \<^verbatim>\<open>Chunk\<close>, and an \<^verbatim>\<open>OutputSection\<close>, the chunk that has \<^verbatim>\<open>members\<close>.\<close>

datatype chunk_kind = HEADER | REGULAR | SYNTHETIC

record chunk =
  name :: string
  kind :: chunk_kind
  shndx :: int
  shdr :: elf_shdr

record output_section = chunk +
  members :: "input_section list"

section \<open>\<^verbatim>\<open>sort_init_fini\<close>\<close>







section \<open>\<^verbatim>\<open>compute_section_sizes\<close>\<close>

text \<open>
  \<^verbatim>\<open>struct T { i64 offset; i64 align; }\<close>, the running sum of the scan, each field kept as
  its 64 bits; \<^verbatim>\<open>std::max\<close> on \<^verbatim>\<open>i64\<close> compares them as signed numbers.
\<close>

record scan_T =
  t_offset :: u64
  t_align :: u64

definition max_i64 :: "u64 \<Rightarrow> u64 \<Rightarrow> u64" where
  "max_i64 a b = (if a <s b then b else a)"

definition scan_identity :: scan_T where
  "scan_identity = \<lparr>t_offset = 0, t_align = 1\<rparr>"

text \<open>
  The scan body on the members of one range, from the sum \<open>acc\<close>; it writes the offsets when
  \<open>is_final\<close> holds. The result is the sum after the range and the members.
\<close>

fun scan_body :: "bool \<Rightarrow> scan_T \<Rightarrow> input_section list \<Rightarrow> scan_T \<times> input_section list" where
  "scan_body is_final acc [] = (acc, [])"
| "scan_body is_final acc (isec # rest) =
     (let off = align_to (t_offset acc) (sh_addralign (isec_shdr isec));
          isec' = (if is_final then isec\<lparr>offset := off\<rparr> else isec);
          acc' = \<lparr>t_offset = off + sh_size (isec_shdr isec),
                  t_align = max_i64 (t_align acc) (sh_addralign (isec_shdr isec))\<rparr>
      in case scan_body is_final acc' rest of (s, rest') \<Rightarrow> (s, isec' # rest'))"

text \<open>The function that joins the sum of the ranges on the left with the sum of a range.\<close>

definition combine :: "scan_T \<Rightarrow> scan_T \<Rightarrow> scan_T" where
  "combine lhs rhs =
     \<lparr>t_offset = align_to (t_offset lhs) (t_align rhs) + t_offset rhs,
      t_align = max_i64 (t_align lhs) (t_align rhs)\<rparr>"

text \<open>
  The ranges of \<^verbatim>\<open>tbb::blocked_range<i64>(0, n, grainsize)\<close> under
  \<^verbatim>\<open>tbb::simple_partitioner\<close>: a range is halved as long as it has more than
  \<^verbatim>\<open>grainsize\<close> elements.
\<close>

function split_range :: "nat \<Rightarrow> nat \<times> nat \<Rightarrow> (nat \<times> nat) list" where
  "split_range grainsize (b, e) =
     (if 0 < grainsize \<and> grainsize < e - b then
        split_range grainsize (b, b + (e - b) div 2)
        @ split_range grainsize (b + (e - b) div 2, e)
      else [(b, e)])"
  by pat_completeness auto

termination
  by (relation "measure (\<lambda>(g, b, e). e - b)") auto

text \<open>
  \<^verbatim>\<open>tbb::parallel_scan\<close> on ranges that run concurrently, as the spec describes the pass:
  every range is first summed from the identity, the sums of the ranges are joined from left
  to right by \<open>combine\<close>, and the final pass over a range starts from the joined sum of the
  ranges on its left. The argument is the list of the members of each range.
\<close>

fun scan_ranges :: "scan_T \<Rightarrow> input_section list list \<Rightarrow> scan_T \<times> input_section list" where
  "scan_ranges acc [] = (acc, [])"
| "scan_ranges acc (r # rest) =
     (let summary = fst (scan_body False scan_identity r);
          final = snd (scan_body True acc r)
      in case scan_ranges (combine acc summary) rest of (s, ms) \<Rightarrow> (s, final @ ms))"

definition parallel_scan :: "nat \<Rightarrow> input_section list \<Rightarrow> scan_T \<times> input_section list" where
  "parallel_scan grainsize ms =
     scan_ranges scan_identity
       (map (\<lambda>(b, e). take (e - b) (drop b ms)) (split_range grainsize (0, length ms)))"

text \<open>The pass on one output section.\<close>

definition compute_section_sizes :: "output_section \<Rightarrow> output_section" where
  "compute_section_sizes osec =
     (if members osec = [] then osec
      else case parallel_scan 10000 (members osec) of
             (acc, ms) \<Rightarrow>
               osec\<lparr>members := ms,
                    shdr := (shdr osec)\<lparr>sh_size := t_offset acc, sh_addralign := t_align acc\<rparr>\<rparr>)"

text \<open>
  The sequential computation of the claim: the offset of a member is the end of the data
  before it, rounded up to the alignment of the member; the size of the section is the end
  of the data, its alignment the largest alignment of a member, and at least 1.
\<close>

fun sequential_offsets :: "u64 \<Rightarrow> input_section list \<Rightarrow> input_section list \<times> u64" where
  "sequential_offsets data_end [] = ([], data_end)"
| "sequential_offsets data_end (isec # rest) =
     (let off = align_to data_end (sh_addralign (isec_shdr isec))
      in case sequential_offsets (off + sh_size (isec_shdr isec)) rest of
           (rest', e) \<Rightarrow> (isec\<lparr>offset := off\<rparr> # rest', e))"

definition sequential_sizes :: "output_section \<Rightarrow> output_section" where
  "sequential_sizes osec =
     (if members osec = [] then osec
      else case sequential_offsets 0 (members osec) of
             (ms, e) \<Rightarrow>
               osec\<lparr>members := ms,
                    shdr := (shdr osec)\<lparr>sh_size := e,
                      sh_addralign := foldl max_i64 1
                        (map (sh_addralign \<circ> isec_shdr) (members osec))\<rparr>\<rparr>)"

text \<open>
  An input section of \<^verbatim>\<open>.text\<close> with a size and an alignment, and an output section of
  30000 members of one byte each: all aligned to 1, but member 7501, which is aligned to 16.
\<close>

definition text_isec :: "u64 \<Rightarrow> u64 \<Rightarrow> input_section" where
  "text_isec sz al =
     \<lparr>isec_name = ''.text'',
      isec_shdr = \<lparr>sh_type = 1, sh_flags = 6, sh_addr = 0, sh_offset = 0, sh_size = sz,
                   sh_addralign = al\<rparr>,
      offset = 0\<rparr>"

definition big_text :: output_section where
  "big_text =
     \<lparr>name = ''.text'', kind = REGULAR, shndx = 0,
      shdr = \<lparr>sh_type = 1, sh_flags = 6, sh_addr = 0, sh_offset = 0, sh_size = 0,
              sh_addralign = 1\<rparr>,
      members = replicate 7501 (text_isec 1 1) @ [text_isec 1 16]
                @ replicate 22498 (text_isec 1 1)\<rparr>"

section \<open>Symbols and input files\<close>

text \<open>
  Pointers to \<^verbatim>\<open>Symbol\<close> and \<^verbatim>\<open>InputFile\<close> objects are numbers. The requirement bits
  of \<^verbatim>\<open>sym->flags\<close> are the elements of a set: \<^verbatim>\<open>sym->flags & NEEDS_GOT\<close> is
  \<open>NEEDS_GOT \<in> flags sym\<close>, and \<^verbatim>\<open>sym->flags = 0\<close> makes the set empty.
\<close>

type_synonym sym_ref = nat
type_synonym file_ref = nat

datatype need =
  NEEDS_GOT | NEEDS_PLT | NEEDS_GOTTP | NEEDS_TLSGD | NEEDS_TLSDESC | NEEDS_TLSLD
  | NEEDS_COPYREL

text \<open>
  The fields of a \<^verbatim>\<open>Symbol\<close> that the passes read or write; \<open>sym_value\<close> is
  \<^verbatim>\<open>value\<close>, \<open>sym_shndx\<close> is \<^verbatim>\<open>shndx\<close>, \<open>sym_file\<close> is \<^verbatim>\<open>file\<close> and \<open>sym_isec\<close> is
  \<^verbatim>\<open>input_section\<close>, with \<open>None\<close> for a null pointer.
\<close>

record symbol =
  sym_file :: "file_ref option"
  sym_value :: u64
  sym_shndx :: int
  ver_idx :: u16
  is_imported :: bool
  is_exported :: bool
  has_copyrel :: bool
  copyrel_readonly :: bool
  flags :: "need set"
  aux_idx :: int
  visibility :: nat
  sym_isec :: "nat option"

text \<open>
  An \<^verbatim>\<open>InputFile\<close>: its identity, whether it is a shared object, its symbol table and, for
  an object file, \<^verbatim>\<open>first_global\<close> and the version suffix of every global symbol
  (\<open>None\<close> is the null pointer of \<^verbatim>\<open>symvers[i]\<close>).
\<close>

record input_file =
  file_id :: file_ref
  is_dso :: bool
  first_global :: nat
  symbols :: "sym_ref list"
  symvers :: "string option list"

section \<open>\<^verbatim>\<open>scan_rels\<close>\<close>

text \<open>
  The part of the context that \<^verbatim>\<open>scan_rels\<close> works on. \<open>syms\<close> holds the symbol
  objects. Modelled from the spec: the classes of the output sections (\<^verbatim>\<open>DynsymSection\<close>,
  \<^verbatim>\<open>GotSection\<close>, \<^verbatim>\<open>PltSection\<close>, \<^verbatim>\<open>PltGotSection\<close>, \<^verbatim>\<open>DynbssSection\<close>) are
  defined outside \<^verbatim>\<open>passes.cc\<close>; the spec says of their \<^verbatim>\<open>add_\<close> functions that they
  add an entry for the symbol to the section, so each section is the list of the symbols
  added to it, in the order of the calls, and \<open>tlsld_calls\<close> counts the calls of
  \<^verbatim>\<open>add_tlsld\<close>.
\<close>

record scan_ctx =
  pic :: bool
  objs :: "input_file list"
  dsos :: "input_file list"
  syms :: "sym_ref \<Rightarrow> symbol"
  symbol_aux_size :: nat
  dynsym_syms :: "sym_ref list"
  got_syms :: "sym_ref list"
  plt_syms :: "sym_ref list"
  pltgot_syms :: "sym_ref list"
  gottp_syms :: "sym_ref list"
  tlsgd_syms :: "sym_ref list"
  tlsdesc_syms :: "sym_ref list"
  tlsld_calls :: nat
  dynbss_syms :: "sym_ref list"
  dynbss_relro_syms :: "sym_ref list"

definition upd_sym :: "sym_ref \<Rightarrow> (symbol \<Rightarrow> symbol) \<Rightarrow> scan_ctx \<Rightarrow> scan_ctx" where
  "upd_sym r f ctx = ctx\<lparr>syms := (syms ctx)(r := f (syms ctx r))\<rparr>"

text \<open>The lambda \<^verbatim>\<open>add_aux\<close>.\<close>

definition add_aux :: "sym_ref \<Rightarrow> scan_ctx \<Rightarrow> scan_ctx" where
  "add_aux symb ctx =
     (if aux_idx (syms ctx symb) = - 1 then
        upd_sym symb (\<lambda>s. s\<lparr>aux_idx := int (symbol_aux_size ctx)\<rparr>)
          (ctx\<lparr>symbol_aux_size := Suc (symbol_aux_size ctx)\<rparr>)
      else ctx)"

text \<open>
  Which file of the context is a shared object: \<^verbatim>\<open>file->is_dso\<close>, through the pointer.
\<close>

definition file_is_dso :: "scan_ctx \<Rightarrow> file_ref \<Rightarrow> bool" where
  "file_is_dso ctx f = list_ex (\<lambda>x. file_id x = f \<and> is_dso x) (objs ctx @ dsos ctx)"

text \<open>The block of the loop body for \<^verbatim>\<open>NEEDS_PLT\<close>.\<close>

definition plt_step :: "sym_ref \<Rightarrow> scan_ctx \<Rightarrow> scan_ctx" where
  "plt_step symb ctx =
     (if NEEDS_PLT \<in> flags (syms ctx symb) then
        let is_canonical = (\<not> pic ctx \<and> is_imported (syms ctx symb));
            ctx = (if is_canonical then upd_sym symb (\<lambda>s. s\<lparr>is_exported := True\<rparr>) ctx
                   else ctx)
        in if NEEDS_GOT \<in> flags (syms ctx symb) \<and> \<not> is_canonical
           then ctx\<lparr>pltgot_syms := pltgot_syms ctx @ [symb]\<rparr>
           else ctx\<lparr>plt_syms := plt_syms ctx @ [symb]\<rparr>
      else ctx)"

text \<open>The body of the loop over the aliases of the symbol \<open>symb\<close>.\<close>

definition alias_step :: "sym_ref \<Rightarrow> scan_ctx \<Rightarrow> sym_ref \<Rightarrow> scan_ctx" where
  "alias_step symb ctx alias =
     (let ctx = add_aux alias ctx;
          ctx = upd_sym alias
                  (\<lambda>a. a\<lparr>is_imported := True, is_exported := True, has_copyrel := True,
                          sym_value := sym_value (syms ctx symb),
                          copyrel_readonly := copyrel_readonly (syms ctx symb)\<rparr>) ctx
      in ctx\<lparr>dynsym_syms := dynsym_syms ctx @ [alias]\<rparr>)"

text \<open>
  The block for \<^verbatim>\<open>NEEDS_COPYREL\<close>. \<^verbatim>\<open>SharedFile::is_readonly\<close> and
  \<^verbatim>\<open>SharedFile::find_aliases\<close> are defined outside \<^verbatim>\<open>passes.cc\<close> and are parameters.
  \<open>None\<close> is the failure of \<^verbatim>\<open>assert(sym->file->is_dso)\<close>.
\<close>

definition copyrel_step ::
  "(file_ref \<Rightarrow> sym_ref \<Rightarrow> bool) \<Rightarrow> (file_ref \<Rightarrow> sym_ref \<Rightarrow> sym_ref list) \<Rightarrow> sym_ref \<Rightarrow> scan_ctx
     \<Rightarrow> scan_ctx option"
where
  "copyrel_step is_readonly find_aliases symb ctx =
     (if NEEDS_COPYREL \<in> flags (syms ctx symb) then
        (case sym_file (syms ctx symb) of
           None \<Rightarrow> None
         | Some f \<Rightarrow>
             if \<not> file_is_dso ctx f then None
             else
               let ctx = upd_sym symb (\<lambda>s. s\<lparr>copyrel_readonly := is_readonly f symb\<rparr>) ctx;
                   ctx = (if copyrel_readonly (syms ctx symb)
                          then ctx\<lparr>dynbss_relro_syms := dynbss_relro_syms ctx @ [symb]\<rparr>
                          else ctx\<lparr>dynbss_syms := dynbss_syms ctx @ [symb]\<rparr>);
                   ctx = upd_sym symb (\<lambda>s. s\<lparr>is_exported := True\<rparr>) ctx
               in Some (foldl (alias_step symb) ctx (find_aliases f symb)))
      else Some ctx)"

text \<open>The body of the loop over the aggregated symbols.\<close>

definition scan_symbol ::
  "(file_ref \<Rightarrow> sym_ref \<Rightarrow> bool) \<Rightarrow> (file_ref \<Rightarrow> sym_ref \<Rightarrow> sym_ref list) \<Rightarrow> sym_ref \<Rightarrow> scan_ctx
     \<Rightarrow> scan_ctx option"
where
  "scan_symbol is_readonly find_aliases symb ctx =
     (let ctx = add_aux symb ctx;
          ctx = (if is_imported (syms ctx symb) \<or> is_exported (syms ctx symb)
                 then ctx\<lparr>dynsym_syms := dynsym_syms ctx @ [symb]\<rparr> else ctx);
          ctx = (if NEEDS_GOT \<in> flags (syms ctx symb)
                 then ctx\<lparr>got_syms := got_syms ctx @ [symb]\<rparr> else ctx);
          ctx = plt_step symb ctx;
          ctx = (if NEEDS_GOTTP \<in> flags (syms ctx symb)
                 then ctx\<lparr>gottp_syms := gottp_syms ctx @ [symb]\<rparr> else ctx);
          ctx = (if NEEDS_TLSGD \<in> flags (syms ctx symb)
                 then ctx\<lparr>tlsgd_syms := tlsgd_syms ctx @ [symb]\<rparr> else ctx);
          ctx = (if NEEDS_TLSDESC \<in> flags (syms ctx symb)
                 then ctx\<lparr>tlsdesc_syms := tlsdesc_syms ctx @ [symb]\<rparr> else ctx);
          ctx = (if NEEDS_TLSLD \<in> flags (syms ctx symb)
                 then ctx\<lparr>tlsld_calls := Suc (tlsld_calls ctx)\<rparr> else ctx)
      in case copyrel_step is_readonly find_aliases symb ctx of
           None \<Rightarrow> None
         | Some ctx \<Rightarrow> Some (upd_sym symb (\<lambda>s. s\<lparr>flags := {}\<rparr>) ctx))"

fun scan_symbols ::
  "(file_ref \<Rightarrow> sym_ref \<Rightarrow> bool) \<Rightarrow> (file_ref \<Rightarrow> sym_ref \<Rightarrow> sym_ref list) \<Rightarrow> sym_ref list
     \<Rightarrow> scan_ctx \<Rightarrow> scan_ctx option"
where
  "scan_symbols is_readonly find_aliases [] ctx = Some ctx"
| "scan_symbols is_readonly find_aliases (symb # rest) ctx =
     (case scan_symbol is_readonly find_aliases symb ctx of
        None \<Rightarrow> None
      | Some ctx \<Rightarrow> scan_symbols is_readonly find_aliases rest ctx)"

text \<open>
  The symbols that the pass aggregates: for every file, objects before shared objects, the
  symbols of its table that it defines and that have a flag, or are imported or exported.
\<close>

definition aggregate :: "scan_ctx \<Rightarrow> sym_ref list" where
  "aggregate ctx =
     concat (map (\<lambda>f. filter (\<lambda>symb. sym_file (syms ctx symb) = Some (file_id f)
                                   \<and> (flags (syms ctx symb) \<noteq> {} \<or> is_imported (syms ctx symb)
                                      \<or> is_exported (syms ctx symb)))
                          (symbols f))
                 (objs ctx @ dsos ctx))"

text \<open>
  \<^verbatim>\<open>scan_rels\<close>, from the aggregation on. What comes before is outside \<^verbatim>\<open>passes.cc\<close>:
  every object file scans its relocations, which sets the flags, and a checkpoint ends the
  link on an error; the flags of the context are those that this scan has left.
\<close>

definition scan_rels ::
  "(file_ref \<Rightarrow> sym_ref \<Rightarrow> bool) \<Rightarrow> (file_ref \<Rightarrow> sym_ref \<Rightarrow> sym_ref list) \<Rightarrow> scan_ctx
     \<Rightarrow> scan_ctx option"
where
  "scan_rels is_readonly find_aliases ctx =
     scan_symbols is_readonly find_aliases (aggregate ctx) ctx"

text \<open>
  For the proofs: what the loop over the aliases leaves alone and what it does to an alias;
  the loop body before the block for copy relocations, and that block before its loop; and
  what no turn of the loop undoes.
\<close>

definition same_but_syms :: "scan_ctx \<Rightarrow> scan_ctx \<Rightarrow> bool" where
  "same_but_syms s s' =
     (pic s' = pic s \<and> objs s' = objs s \<and> dsos s' = dsos s \<and> got_syms s' = got_syms s
      \<and> plt_syms s' = plt_syms s \<and> pltgot_syms s' = pltgot_syms s
      \<and> dynbss_syms s' = dynbss_syms s \<and> dynbss_relro_syms s' = dynbss_relro_syms s
      \<and> (\<forall>x. flags (syms s' x) = flags (syms s x)
              \<and> sym_file (syms s' x) = sym_file (syms s x)
              \<and> (is_exported (syms s x) \<longrightarrow> is_exported (syms s' x))
              \<and> (is_imported (syms s x) \<longrightarrow> is_imported (syms s' x))
              \<and> (has_copyrel (syms s x) \<longrightarrow> has_copyrel (syms s' x)))
      \<and> set (dynsym_syms s) \<subseteq> set (dynsym_syms s'))"


definition scan_head :: "sym_ref \<Rightarrow> scan_ctx \<Rightarrow> scan_ctx" where
  "scan_head symb ctx =
     (let ctx = add_aux symb ctx;
          ctx = (if is_imported (syms ctx symb) \<or> is_exported (syms ctx symb)
                 then ctx\<lparr>dynsym_syms := dynsym_syms ctx @ [symb]\<rparr> else ctx);
          ctx = (if NEEDS_GOT \<in> flags (syms ctx symb)
                 then ctx\<lparr>got_syms := got_syms ctx @ [symb]\<rparr> else ctx);
          ctx = plt_step symb ctx;
          ctx = (if NEEDS_GOTTP \<in> flags (syms ctx symb)
                 then ctx\<lparr>gottp_syms := gottp_syms ctx @ [symb]\<rparr> else ctx);
          ctx = (if NEEDS_TLSGD \<in> flags (syms ctx symb)
                 then ctx\<lparr>tlsgd_syms := tlsgd_syms ctx @ [symb]\<rparr> else ctx);
          ctx = (if NEEDS_TLSDESC \<in> flags (syms ctx symb)
                 then ctx\<lparr>tlsdesc_syms := tlsdesc_syms ctx @ [symb]\<rparr> else ctx);
          ctx = (if NEEDS_TLSLD \<in> flags (syms ctx symb)
                 then ctx\<lparr>tlsld_calls := Suc (tlsld_calls ctx)\<rparr> else ctx)
      in ctx)"

definition copyrel_marked :: "(file_ref \<Rightarrow> sym_ref \<Rightarrow> bool) \<Rightarrow> file_ref \<Rightarrow> sym_ref \<Rightarrow> scan_ctx \<Rightarrow> scan_ctx" where
  "copyrel_marked is_readonly f symb ctx =
     (let ctx = upd_sym symb (\<lambda>s. s\<lparr>copyrel_readonly := is_readonly f symb\<rparr>) ctx;
          ctx = (if copyrel_readonly (syms ctx symb)
                 then ctx\<lparr>dynbss_relro_syms := dynbss_relro_syms ctx @ [symb]\<rparr>
                 else ctx\<lparr>dynbss_syms := dynbss_syms ctx @ [symb]\<rparr>)
      in upd_sym symb (\<lambda>s. s\<lparr>is_exported := True\<rparr>) ctx)"

definition kept :: "scan_ctx \<Rightarrow> scan_ctx \<Rightarrow> bool" where
  "kept s s' =
     (pic s' = pic s \<and> objs s' = objs s \<and> dsos s' = dsos s
      \<and> (\<forall>x. sym_file (syms s' x) = sym_file (syms s x)
              \<and> (is_exported (syms s x) \<longrightarrow> is_exported (syms s' x))
              \<and> (is_imported (syms s x) \<longrightarrow> is_imported (syms s' x))
              \<and> (has_copyrel (syms s x) \<longrightarrow> has_copyrel (syms s' x)))
      \<and> set (dynsym_syms s) \<subseteq> set (dynsym_syms s'))"

text \<open>
  An example: a non-PIC executable. Its object file 0 defines \<^verbatim>\<open>main\<close> (symbol 1); the
  shared object 1 defines the function \<^verbatim>\<open>hello\<close> (symbol 2), which the executable calls,
  and the variable \<^verbatim>\<open>foo\<close> (symbol 3) with its alias \<^verbatim>\<open>bar\<close> (symbol 4) at the same
  address; the executable takes the address of \<^verbatim>\<open>foo\<close>.
\<close>

definition no_symbol :: symbol where
  "no_symbol = \<lparr>sym_file = None, sym_value = 0, sym_shndx = 0, ver_idx = 1, is_imported = False,
     is_exported = False, has_copyrel = False, copyrel_readonly = False, flags = {},
     aux_idx = - 1, visibility = 0, sym_isec = None\<rparr>"

definition hello_ctx :: scan_ctx where
  "hello_ctx =
     \<lparr>pic = False,
      objs = [\<lparr>file_id = 0, is_dso = False, first_global = 1, symbols = [0, 1],
               symvers = [None]\<rparr>],
      dsos = [\<lparr>file_id = 1, is_dso = True, first_global = 0, symbols = [2, 3, 4],
               symvers = []\<rparr>],
      syms = (\<lambda>r. no_symbol)
        (1 := no_symbol\<lparr>sym_file := Some 0, sym_value := 0x401000\<rparr>,
         2 := no_symbol\<lparr>sym_file := Some 1, is_imported := True, flags := {NEEDS_PLT}\<rparr>,
         3 := no_symbol\<lparr>sym_file := Some 1, sym_value := 0x4010, is_imported := True,
                flags := {NEEDS_COPYREL}\<rparr>,
         4 := no_symbol\<lparr>sym_file := Some 1, sym_value := 0x4010\<rparr>),
      symbol_aux_size = 0, dynsym_syms = [], got_syms = [], plt_syms = [], pltgot_syms = [],
      gottp_syms = [], tlsgd_syms = [], tlsdesc_syms = [], tlsld_calls = 0, dynbss_syms = [],
      dynbss_relro_syms = []\<rparr>"

definition hello_aliases :: "file_ref \<Rightarrow> sym_ref \<Rightarrow> sym_ref list" where
  "hello_aliases f symb = (if symb = 3 then [4] else if symb = 4 then [3] else [])"


section \<open>\<^verbatim>\<open>parse_symbol_version\<close>\<close>













section \<open>\<^verbatim>\<open>set_osec_offsets\<close>\<close>

text \<open>The values of the ELF constants that the passes test, as the ELF specification gives them.\<close>

definition SHT_NOTE :: "32 word" where "SHT_NOTE = 7"
definition SHT_NOBITS :: "32 word" where "SHT_NOBITS = 8"
definition SHT_INIT_ARRAY :: "32 word" where "SHT_INIT_ARRAY = 14"
definition SHT_FINI_ARRAY :: "32 word" where "SHT_FINI_ARRAY = 15"
definition SHF_WRITE :: u64 where "SHF_WRITE = 1"
definition SHF_ALLOC :: u64 where "SHF_ALLOC = 2"
definition SHF_EXECINSTR :: u64 where "SHF_EXECINSTR = 4"
definition SHF_TLS :: u64 where "SHF_TLS = 1024"

text \<open>
  \<^verbatim>\<open>align_with_skew\<close>; \<open>None\<close> is the division by zero of \<^verbatim>\<open>skew % align\<close> when
  \<^verbatim>\<open>align\<close> is 0.
\<close>

definition align_with_skew :: "u64 \<Rightarrow> u64 \<Rightarrow> u64 \<Rightarrow> u64 option" where
  "align_with_skew val align skew =
     (if align = 0 then None
      else let skew = skew mod align
           in Some (align_to (val + align - skew) align - align + skew))"

definition is_tbss :: "chunk \<Rightarrow> bool" where
  "is_tbss c = (sh_type (shdr c) = SHT_NOBITS \<and> sh_flags (shdr c) AND SHF_TLS \<noteq> 0)"

definition set_sh_addr :: "u64 \<Rightarrow> chunk \<Rightarrow> chunk" where
  "set_sh_addr a c = c\<lparr>shdr := (shdr c)\<lparr>sh_addr := a\<rparr>\<rparr>"

definition set_sh_offset :: "u64 \<Rightarrow> chunk \<Rightarrow> chunk" where
  "set_sh_offset off c = c\<lparr>shdr := (shdr c)\<lparr>sh_offset := off\<rparr>\<rparr>"

text \<open>
  The first loop of \<^verbatim>\<open>set_osec_offsets\<close>: virtual addresses. \<^verbatim>\<open>separate_page\<close> is
  defined outside \<^verbatim>\<open>passes.cc\<close> and is a parameter here; \<open>prev\<close> is
  \<^verbatim>\<open>chunks[i - 1]\<close>, and \<open>None\<close> when \<^verbatim>\<open>i\<close> is 0. The result is the chunks and the
  address after the last of them.
\<close>

fun assign_addrs ::
  "(chunk \<Rightarrow> chunk \<Rightarrow> bool) \<Rightarrow> u64 \<Rightarrow> chunk option \<Rightarrow> u64 \<Rightarrow> chunk list \<Rightarrow> chunk list \<times> u64"
where
  "assign_addrs separate_page page_size prev addr [] = ([], addr)"
| "assign_addrs separate_page page_size prev addr (c # cs) =
     (if sh_flags (shdr c) AND SHF_ALLOC = 0 then
        (case assign_addrs separate_page page_size (Some c) addr cs of
           (cs', a) \<Rightarrow> (c # cs', a))
      else
        let addr = (case prev of
                      None \<Rightarrow> addr
                    | Some p \<Rightarrow> if separate_page p c then align_to addr page_size else addr)
        in if is_tbss c then
             (case assign_addrs separate_page page_size (Some (set_sh_addr addr c)) addr cs of
                (cs', a) \<Rightarrow> (set_sh_addr addr c # cs', a))
           else
             let addr = align_to addr (sh_addralign (shdr c))
             in (case assign_addrs separate_page page_size (Some (set_sh_addr addr c))
                        (addr + sh_size (shdr c)) cs of
                   (cs', a) \<Rightarrow> (set_sh_addr addr c # cs', a)))"

text \<open>
  The second loop. \<open>tbss_run\<close> is its inner loop: it lays out the tbss chunks at the head
  of the list one after the other and returns them with the chunks left over.
\<close>

fun tbss_run :: "u64 \<Rightarrow> chunk list \<Rightarrow> chunk list \<times> chunk list" where
  "tbss_run addr [] = ([], [])"
| "tbss_run addr (c # cs) =
     (if is_tbss c then
        let addr = align_to addr (sh_addralign (shdr c))
        in (case tbss_run (addr + sh_size (shdr c)) cs of
              (run, rest) \<Rightarrow> (set_sh_addr addr c # run, rest))
      else ([], c # cs))"

lemma tbss_run_rest_length:
  "tbss_run addr cs = (run, rest) \<Longrightarrow> length rest \<le> length cs"
proof (induction cs arbitrary: addr run rest)
  case Nil
  then show ?case by simp
next
  case (Cons c cs)
  show ?case
  proof (cases "is_tbss c")
    case True
    obtain run' rest' where r:
      "tbss_run (align_to addr (sh_addralign (shdr c)) + sh_size (shdr c)) cs = (run', rest')"
      by (cases "tbss_run (align_to addr (sh_addralign (shdr c)) + sh_size (shdr c)) cs")
    then have "rest = rest'" using Cons.prems True by (simp add: Let_def)
    then show ?thesis using Cons.IH [OF r] by simp
  next
    case False
    then show ?thesis using Cons.prems by auto
  qed
qed

function fix_tbss :: "chunk list \<Rightarrow> chunk list" where
  "fix_tbss [] = []"
| "fix_tbss (c # cs) =
     (if is_tbss c then
        (case tbss_run (sh_addr (shdr c)) (c # cs) of
           (run, rest) \<Rightarrow> run @ fix_tbss rest)
      else c # fix_tbss cs)"
  by pat_completeness auto

termination
  apply (relation "measure length")
    apply simp
   apply (auto simp: Let_def less_Suc_eq_le split: prod.splits dest: tbss_run_rest_length)
  done

text \<open>The third loop: file offsets. The result is the chunks and the final \<^verbatim>\<open>fileoff\<close>.\<close>

fun assign_offsets :: "u64 \<Rightarrow> u64 \<Rightarrow> chunk list \<Rightarrow> (chunk list \<times> u64) option" where
  "assign_offsets page_size fileoff [] = Some ([], fileoff)"
| "assign_offsets page_size fileoff (c # cs) =
     (if sh_type (shdr c) = SHT_NOBITS then
        (case assign_offsets page_size fileoff cs of
           None \<Rightarrow> None
         | Some (cs', f) \<Rightarrow> Some (set_sh_offset fileoff c # cs', f))
      else
        (case align_with_skew fileoff page_size (sh_addr (shdr c)) of
           None \<Rightarrow> None
         | Some fileoff \<Rightarrow>
             (case assign_offsets page_size (fileoff + sh_size (shdr c)) cs of
                None \<Rightarrow> None
              | Some (cs', f) \<Rightarrow> Some (set_sh_offset fileoff c # cs', f))))"

definition set_osec_offsets ::
  "(chunk \<Rightarrow> chunk \<Rightarrow> bool) \<Rightarrow> u64 \<Rightarrow> u64 \<Rightarrow> chunk list \<Rightarrow> (chunk list \<times> u64) option"
where
  "set_osec_offsets separate_page image_base page_size chunks =
     assign_offsets page_size 0
       (fix_tbss (fst (assign_addrs separate_page page_size None image_base chunks)))"

text \<open>
  The file cursor after a chunk of the finished layout: a \<^verbatim>\<open>SHT_NOBITS\<close> chunk takes no
  room in the file.
\<close>

definition file_end :: "chunk \<Rightarrow> u64" where
  "file_end c =
     (if sh_type (shdr c) = SHT_NOBITS then sh_offset (shdr c)
      else sh_offset (shdr c) + sh_size (shdr c))"

text \<open>
  What the claims say of a file offset, given the cursor \<open>cur\<close> at which the loop reaches the
  chunk: a \<^verbatim>\<open>SHT_NOBITS\<close> chunk sits at the cursor; any other chunk sits at the smallest offset
  from the cursor on that is congruent to its address modulo the page size.
\<close>

definition offset_ok :: "u64 \<Rightarrow> u64 \<Rightarrow> chunk \<Rightarrow> bool" where
  "offset_ok page_size cur c =
     (if sh_type (shdr c) = SHT_NOBITS then sh_offset (shdr c) = cur
      else cur \<le> sh_offset (shdr c)
           \<and> sh_offset (shdr c) mod page_size = sh_addr (shdr c) mod page_size
           \<and> (\<forall>v. cur \<le> v \<and> v mod page_size = sh_addr (shdr c) mod page_size
                  \<longrightarrow> sh_offset (shdr c) \<le> v))"

text \<open>
  The same of a whole layout: every chunk is placed rightly for the cursor that the chunk
  before it left (0 for the first), and \<open>fileoff\<close> is the cursor that the last chunk leaves.
\<close>

fun offsets_laid_out :: "u64 \<Rightarrow> u64 \<Rightarrow> chunk list \<Rightarrow> u64 \<Rightarrow> bool" where
  "offsets_laid_out page_size cur [] fileoff = (fileoff = cur)"
| "offsets_laid_out page_size cur (c # cs) fileoff =
     (offset_ok page_size cur c \<and> offsets_laid_out page_size (file_end c) cs fileoff)"


text \<open>
  For the proofs: a chunk that differs from another in its address at most, or in its file
  offset at most, and the part of a chunk that no loop of \<^verbatim>\<open>set_osec_offsets\<close> writes.
\<close>

definition readdressed :: "chunk \<Rightarrow> chunk \<Rightarrow> bool" where
  "readdressed c c' = (\<exists>a. c' = set_sh_addr a c)"

definition reoffset :: "chunk \<Rightarrow> chunk \<Rightarrow> bool" where
  "reoffset c c' = (\<exists>off. c' = set_sh_offset off c)"

definition header :: "chunk \<Rightarrow> string \<times> chunk_kind \<times> int \<times> 32 word \<times> u64 \<times> u64 \<times> u64" where
  "header c = (name c, kind c, shndx c, sh_type (shdr c), sh_flags (shdr c), sh_size (shdr c),
               sh_addralign (shdr c))"


text \<open>Chunks for examples: a name, a type, flags, a size and an alignment.\<close>

definition mk_chunk :: "string \<Rightarrow> 32 word \<Rightarrow> u64 \<Rightarrow> u64 \<Rightarrow> u64 \<Rightarrow> chunk" where
  "mk_chunk nm ty fl sz al =
     \<lparr>name = nm, kind = REGULAR, shndx = 0,
      shdr = \<lparr>sh_type = ty, sh_flags = fl, sh_addr = 0, sh_offset = 0, sh_size = sz,
              sh_addralign = al\<rparr>\<rparr>"

text \<open>What an example layout shows: the name, address and file offset of each chunk.\<close>

definition placed :: "chunk \<Rightarrow> string \<times> u64 \<times> u64" where
  "placed c = (name c, sh_addr (shdr c), sh_offset (shdr c))"


section \<open>\<^verbatim>\<open>fix_synthetic_symbols\<close>\<close>

text \<open>
  The target \<^verbatim>\<open>E\<close>: the three for which the passes are instantiated, whether it uses
  \<^verbatim>\<open>Rel\<close> records (\<^verbatim>\<open>E::is_rel\<close>) and \<^verbatim>\<open>sizeof(ElfRel<E>)\<close>. The last two are declared
  outside \<^verbatim>\<open>passes.cc\<close> and are fields of the description. \<^verbatim>\<open>STT_GNU_IFUNC\<close> is the
  symbol type 10 of the ELF specification.
\<close>

datatype machine = EM_X86_64 | EM_386 | EM_AARCH64

record target =
  e_machine :: machine
  is_rel :: bool
  sizeof_ElfRel :: u64

definition STT_GNU_IFUNC :: nat where "STT_GNU_IFUNC = 10"

text \<open>
  The part of the context that the pass works on. The global symbol table interns a symbol
  by its name, so \<open>ctx_syms\<close> maps names to symbol objects and \<^verbatim>\<open>get_symbol(ctx, name)\<close> is
  \<open>ctx_syms ctx name\<close>; the pointers \<^verbatim>\<open>ctx.__bss_start\<close>, \<^verbatim>\<open>ctx._end\<close> and the like are
  the names that \<^verbatim>\<open>create_internal_file\<close> gave them. \<^verbatim>\<open>ctx.end\<close>, \<^verbatim>\<open>ctx.etext\<close>,
  \<^verbatim>\<open>ctx.edata\<close> and \<^verbatim>\<open>ctx.__GNU_EH_FRAME_HDR\<close> can be null, and so can
  \<^verbatim>\<open>ctx.eh_frame_hdr\<close>. \<open>ctx_got_syms\<close> is \<^verbatim>\<open>ctx.got->got_syms\<close>, \<open>ctx_errors\<close> the names
  that \<^verbatim>\<open>--defsym\<close> found undefined.
\<close>

record fix_ctx =
  ctx_chunks :: "chunk list"
  ctx_ehdr :: chunk
  ctx_reldyn :: chunk
  ctx_dynamic :: chunk
  ctx_gotplt :: chunk
  ctx_got :: chunk
  ctx_eh_frame_hdr :: "chunk option"
  ctx_got_syms :: "sym_ref list"
  ctx_defsyms :: "(string \<times> string) list"
  ctx_has_end :: bool
  ctx_has_etext :: bool
  ctx_has_edata :: bool
  ctx_has_GNU_EH_FRAME_HDR :: bool
  ctx_syms :: "string \<Rightarrow> symbol"
  ctx_errors :: "string list"

text \<open>The names of \<^verbatim>\<open>ctx.__rel_iplt_start\<close> and \<^verbatim>\<open>ctx.__rel_iplt_end\<close>.\<close>

definition rel_iplt_start :: "target \<Rightarrow> string" where
  "rel_iplt_start E = (if is_rel E then ''__rel_iplt_start'' else ''__rela_iplt_start'')"

definition rel_iplt_end :: "target \<Rightarrow> string" where
  "rel_iplt_end E = (if is_rel E then ''__rel_iplt_end'' else ''__rela_iplt_end'')"

text \<open>
  \<^verbatim>\<open>get_num_irelative_relocs\<close>; \<^verbatim>\<open>Symbol::get_type\<close> is defined outside \<^verbatim>\<open>passes.cc\<close>
  and is a parameter.
\<close>

definition get_num_irelative_relocs :: "(sym_ref \<Rightarrow> nat) \<Rightarrow> fix_ctx \<Rightarrow> nat" where
  "get_num_irelative_relocs get_type ctx =
     length (filter (\<lambda>symb. get_type symb = STT_GNU_IFUNC) (ctx_got_syms ctx))"

text \<open>The lambdas \<^verbatim>\<open>start\<close> and \<^verbatim>\<open>stop\<close>, on a symbol and a chunk that are not null.\<close>

definition start :: "string \<Rightarrow> chunk \<Rightarrow> fix_ctx \<Rightarrow> fix_ctx" where
  "start nm c ctx =
     ctx\<lparr>ctx_syms := (ctx_syms ctx)
           (nm := (ctx_syms ctx nm)\<lparr>sym_shndx := shndx c, sym_value := sh_addr (shdr c)\<rparr>)\<rparr>"

definition stop :: "string \<Rightarrow> chunk \<Rightarrow> fix_ctx \<Rightarrow> fix_ctx" where
  "stop nm c ctx =
     ctx\<lparr>ctx_syms := (ctx_syms ctx)
           (nm := (ctx_syms ctx nm)\<lparr>sym_shndx := shndx c,
                   sym_value := sh_addr (shdr c) + sh_size (shdr c)\<rparr>)\<rparr>"

text \<open>The same for a symbol that may be null.\<close>

definition stop_if :: "bool \<Rightarrow> string \<Rightarrow> chunk \<Rightarrow> fix_ctx \<Rightarrow> fix_ctx" where
  "stop_if present nm c ctx = (if present then stop nm c ctx else ctx)"

text \<open>The body of the loop for \<^verbatim>\<open>__init_array_start\<close> and its like.\<close>

definition fix_array_syms :: "fix_ctx \<Rightarrow> chunk \<Rightarrow> fix_ctx" where
  "fix_array_syms ctx c =
     (if sh_type (shdr c) = SHT_INIT_ARRAY then
        stop ''__init_array_end'' c (start ''__init_array_start'' c ctx)
      else if sh_type (shdr c) = SHT_FINI_ARRAY then
        stop ''__fini_array_end'' c (start ''__fini_array_start'' c ctx)
      else ctx)"

text \<open>The body of the loop for \<^verbatim>\<open>_end\<close>, \<^verbatim>\<open>_etext\<close>, \<^verbatim>\<open>_edata\<close> and the like.\<close>

definition fix_end_syms :: "fix_ctx \<Rightarrow> chunk \<Rightarrow> fix_ctx" where
  "fix_end_syms ctx c =
     (if kind c = HEADER then ctx
      else
        let ctx = (if sh_flags (shdr c) AND SHF_ALLOC \<noteq> 0
                   then stop_if (ctx_has_end ctx) ''end'' c (stop ''_end'' c ctx) else ctx);
            ctx = (if sh_flags (shdr c) AND SHF_EXECINSTR \<noteq> 0
                   then stop_if (ctx_has_etext ctx) ''etext'' c (stop ''_etext'' c ctx)
                   else ctx);
            ctx = (if sh_type (shdr c) \<noteq> SHT_NOBITS \<and> sh_flags (shdr c) AND SHF_ALLOC \<noteq> 0
                   then stop_if (ctx_has_edata ctx) ''edata'' c (stop ''_edata'' c ctx)
                   else ctx)
        in ctx)"

text \<open>
  The body of the loop for \<^verbatim>\<open>__start_\<close> and \<^verbatim>\<open>__stop_\<close>; \<^verbatim>\<open>is_c_identifier\<close> is
  defined outside \<^verbatim>\<open>passes.cc\<close> and is a parameter.
\<close>

definition fix_start_stop :: "(string \<Rightarrow> bool) \<Rightarrow> fix_ctx \<Rightarrow> chunk \<Rightarrow> fix_ctx" where
  "fix_start_stop is_c_identifier ctx c =
     (if is_c_identifier (name c) then
        stop (''__stop_'' @ name c) c (start (''__start_'' @ name c) c ctx)
      else ctx)"

text \<open>
  The loop over \<^verbatim>\<open>ctx.arg.defsyms\<close>. \<^verbatim>\<open>Symbol::get_addr\<close> is defined outside
  \<^verbatim>\<open>passes.cc\<close> and is a parameter, and so is the \<^verbatim>\<open>shndx\<close> of the output section of an
  input section. An exception of \<^verbatim>\<open>parse_defsym_addr\<close> ends the pass.
\<close>

fun apply_defsyms ::
  "(fix_ctx \<Rightarrow> string \<Rightarrow> u64) \<Rightarrow> (nat \<Rightarrow> int) \<Rightarrow> (string \<times> string) list \<Rightarrow> fix_ctx
     \<Rightarrow> cxx_exception + fix_ctx"
where
  "apply_defsyms get_addr osec_shndx [] ctx = Inr ctx"
| "apply_defsyms get_addr osec_shndx ((lhs, rhs) # rest) ctx =
     (let ctx = ctx\<lparr>ctx_syms := (ctx_syms ctx)(lhs := (ctx_syms ctx lhs)\<lparr>sym_isec := None\<rparr>)\<rparr>
      in case parse_defsym_addr rhs of
           Inl e \<Rightarrow> Inl e
         | Inr (Some addr) \<Rightarrow>
             apply_defsyms get_addr osec_shndx rest
               (ctx\<lparr>ctx_syms := (ctx_syms ctx)(lhs := (ctx_syms ctx lhs)\<lparr>sym_value := addr\<rparr>)\<rparr>)
         | Inr None \<Rightarrow>
             if sym_file (ctx_syms ctx rhs) = None then
               apply_defsyms get_addr osec_shndx rest (ctx\<lparr>ctx_errors := ctx_errors ctx @ [rhs]\<rparr>)
             else
               let sym2 = ctx_syms ctx rhs;
                   ctx = ctx\<lparr>ctx_syms := (ctx_syms ctx)
                           (lhs := (ctx_syms ctx lhs)\<lparr>sym_value := get_addr ctx rhs,
                                   visibility := visibility sym2\<rparr>)\<rparr>;
                   ctx = (case sym_isec (ctx_syms ctx rhs) of
                            None \<Rightarrow> ctx
                          | Some isec \<Rightarrow>
                              ctx\<lparr>ctx_syms := (ctx_syms ctx)
                                (lhs := (ctx_syms ctx lhs)\<lparr>sym_shndx := osec_shndx isec\<rparr>)\<rparr>)
               in apply_defsyms get_addr osec_shndx rest ctx)"

text \<open>The pass.\<close>

definition fix_synthetic_symbols ::
  "target \<Rightarrow> (sym_ref \<Rightarrow> nat) \<Rightarrow> (string \<Rightarrow> bool) \<Rightarrow> (fix_ctx \<Rightarrow> string \<Rightarrow> u64) \<Rightarrow> (nat \<Rightarrow> int)
     \<Rightarrow> fix_ctx \<Rightarrow> cxx_exception + fix_ctx"
where
  "fix_synthetic_symbols E get_type is_c_identifier get_addr osec_shndx ctx =
     (let ctx = (case find (\<lambda>c. kind c = REGULAR \<and> name c = ''.bss'') (ctx_chunks ctx) of
                   None \<Rightarrow> ctx
                 | Some c \<Rightarrow> start ''__bss_start'' c ctx);
          ctx = (if list_ex (\<lambda>c. shndx c = 1) (ctx_chunks ctx) then
                   ctx\<lparr>ctx_syms := (ctx_syms ctx)
                     (''__ehdr_start'' := (ctx_syms ctx ''__ehdr_start'')
                        \<lparr>sym_shndx := 1, sym_value := sh_addr (shdr (ctx_ehdr ctx))\<rparr>,
                      ''__executable_start'' := (ctx_syms ctx ''__executable_start'')
                        \<lparr>sym_shndx := 1, sym_value := sh_addr (shdr (ctx_ehdr ctx))\<rparr>)\<rparr>
                 else ctx);
          ctx = start (rel_iplt_start E) (ctx_reldyn ctx) ctx;
          ctx = ctx\<lparr>ctx_syms := (ctx_syms ctx)
                  (rel_iplt_end E := (ctx_syms ctx (rel_iplt_end E))
                     \<lparr>sym_shndx := shndx (ctx_reldyn ctx),
                      sym_value := sh_addr (shdr (ctx_reldyn ctx))
                        + of_nat (get_num_irelative_relocs get_type ctx) * sizeof_ElfRel E\<rparr>)\<rparr>;
          ctx = foldl fix_array_syms ctx (ctx_chunks ctx);
          ctx = foldl fix_end_syms ctx (ctx_chunks ctx);
          ctx = start ''_DYNAMIC'' (ctx_dynamic ctx) ctx;
          ctx = (case e_machine E of
                   EM_X86_64 \<Rightarrow> start ''_GLOBAL_OFFSET_TABLE_'' (ctx_gotplt ctx) ctx
                 | EM_386 \<Rightarrow> start ''_GLOBAL_OFFSET_TABLE_'' (ctx_gotplt ctx) ctx
                 | EM_AARCH64 \<Rightarrow> start ''_GLOBAL_OFFSET_TABLE_'' (ctx_got ctx) ctx);
          ctx = (case ctx_eh_frame_hdr ctx of
                   None \<Rightarrow> ctx
                 | Some c \<Rightarrow> if ctx_has_GNU_EH_FRAME_HDR ctx
                             then start ''__GNU_EH_FRAME_HDR'' c ctx else ctx);
          ctx = foldl (fix_start_stop is_c_identifier) ctx (ctx_chunks ctx)
      in apply_defsyms get_addr osec_shndx (ctx_defsyms ctx) ctx)"

chapter \<open>Properties\<close>

section \<open>Properties of \<^verbatim>\<open>parse_defsym_addr\<close>\<close>

text \<open>
  C10. The claim: \<^verbatim>\<open>parse_defsym_addr\<close> is total, never converts a string without a
  digit, and returns none for the empty string. The code does convert the empty string: it
  does not start with \<^verbatim>\<open>0x\<close>, \<^verbatim>\<open>find_first_not_of\<close> finds no character that is not a
  decimal digit, and \<^verbatim>\<open>std::stoull\<close> throws \<^verbatim>\<open>std::invalid_argument\<close> on it. A literal
  that does not fit 64 bits makes \<^verbatim>\<open>std::stoull\<close> throw \<^verbatim>\<open>std::out_of_range\<close>, in
  both branches. In neither case does the function return.
\<close>

theorem parse_defsym_addr_throws:
  "parse_defsym_addr [] = Inl invalid_argument
   \<and> parse_defsym_addr ''18446744073709551616'' = Inl out_of_range
   \<and> parse_defsym_addr ''0x10000000000000000'' = Inl out_of_range"
  by (simp add: parse_defsym_addr_def stoull_def starts_with_def digit_of_def digits_value_def
      is_space_def)

section \<open>Properties of \<^verbatim>\<open>create_synthetic_sections\<close>\<close>

text \<open>
  C6, as the claim states it, fails: \<^verbatim>\<open>.gnu.version\<close>, \<^verbatim>\<open>.gnu.version_r\<close> and
  \<^verbatim>\<open>.note.gnu.property\<close> are appended with every option switched off.
\<close>

theorem create_synthetic_sections_unguarded:
  "VersymSection \<in> set (create_synthetic_sections no_options [])
   \<and> VerneedSection \<in> set (create_synthetic_sections no_options [])
   \<and> NotePropertySection \<in> set (create_synthetic_sections no_options [])"
  by (simp add: create_synthetic_sections_def add_if_def no_options_def)

text \<open>
  C6, amended. For every option record and every chunk table, the function appends, in this
  order: the seventeen fixed chunks; then \<^verbatim>\<open>.interp\<close>, \<^verbatim>\<open>.note.gnu.build-id\<close>,
  \<^verbatim>\<open>.eh_frame_hdr\<close>, \<^verbatim>\<open>.hash\<close>, \<^verbatim>\<open>.gnu.hash\<close> and \<^verbatim>\<open>.gnu.version_d\<close>, each
  exactly when its option is on; then \<^verbatim>\<open>.dynamic\<close>, \<^verbatim>\<open>.gnu.version\<close>,
  \<^verbatim>\<open>.gnu.version_r\<close> and \<^verbatim>\<open>.note.gnu.property\<close> whatever the options are; then the
  repro section exactly when \<^verbatim>\<open>--repro\<close> is on.
\<close>

theorem create_synthetic_sections_chunks:
  "create_synthetic_sections arg chunks =
     chunks
     @ [OutputEhdr, OutputPhdr, OutputShdr, GotSection, GotPltSection, RelDynSection,
        RelPltSection, StrtabSection, ShstrtabSection, PltSection, PltGotSection,
        SymtabSection, DynsymSection, DynstrSection, EhFrameSection, DynbssSection False,
        DynbssSection True]
     @ (if dynamic_linker arg \<noteq> [] then [InterpSection] else [])
     @ (if build_id arg \<noteq> NONE then [BuildIdSection] else [])
     @ (if eh_frame_hdr arg then [EhFrameHdrSection] else [])
     @ (if hash_style_sysv arg then [HashSection] else [])
     @ (if hash_style_gnu arg then [GnuHashSection] else [])
     @ (if version_definitions arg \<noteq> [] then [VerdefSection] else [])
     @ [DynamicSection, VersymSection, VerneedSection, NotePropertySection]
     @ (if repro arg then [ReproSection] else [])"
  by (simp add: create_synthetic_sections_def add_if_def)

section \<open>Properties of \<^verbatim>\<open>sort_init_fini\<close>\<close>


















section \<open>Properties of \<^verbatim>\<open>set_osec_offsets\<close>\<close>

text \<open>Rounding up, read as natural numbers, when nothing wraps around.\<close>

lemmas layout_simps = set_osec_offsets_def mk_chunk_def placed_def is_tbss_def set_sh_addr_def
  set_sh_offset_def align_to_def align_with_skew_def SHT_NOBITS_def SHF_ALLOC_def SHF_TLS_def
  Let_def

lemma unat_align_to:
  fixes v a :: u64
  assumes a: "a \<noteq> 0" and fit: "unat v + unat a \<le> 2 ^ 64"
  shows "unat (align_to v a) = (unat v + unat a - 1) div unat a * unat a"
proof -
  have A: "0 < unat a" using a by (simp add: unat_gt_0)
  have a1: "unat (a - 1) = unat a - 1" using a by (rule unat_minus_one)
  have "unat v + unat (a - 1) < 2 ^ LENGTH(64)" using fit A a1 by simp
  then have s: "unat (v + (a - 1)) = unat v + unat (a - 1)" by (simp only: unat_add_lem)
  have e: "v + a - 1 = v + (a - 1)" by simp
  have "unat (v + a - 1) = unat v + unat (a - 1)" by (simp only: e s)
  then have n: "unat (v + a - 1) = unat v + unat a - 1" using a1 A by linarith
  have d: "unat ((v + a - 1) div a) = (unat v + unat a - 1) div unat a"
    by (simp only: unat_div n)
  have "(unat v + unat a - 1) div unat a * unat a \<le> unat v + unat a - 1"
    by (rule div_times_less_eq_dividend)
  then have "(unat v + unat a - 1) div unat a * unat a < 2 ^ 64" using fit A by linarith
  then have "unat ((v + a - 1) div a) * unat a < 2 ^ LENGTH(64)" by (simp only: d) simp
  then have "unat ((v + a - 1) div a * a) = unat ((v + a - 1) div a) * unat a"
    by (simp only: unat_mult_lem)
  then show ?thesis using a d by (simp add: align_to_def)
qed

text \<open>The arithmetic of rounding up, on natural numbers.\<close>

lemma round_up_bounds:
  fixes x a :: nat
  assumes "0 < a"
  shows "x \<le> (x + a - 1) div a * a" and "(x + a - 1) div a * a < x + a"
proof -
  let ?q = "(x + a - 1) div a"
  have e: "?q * a + (x + a - 1) mod a = x + a - 1" by simp
  have m: "(x + a - 1) mod a < a" using assms by simp
  show "x \<le> ?q * a" using e m assms by linarith
  show "?q * a < x + a" using e assms by linarith
qed

lemma skew_minimal:
  fixes r w a s v :: nat
  assumes "0 < a" and "r mod a = s" and "w mod a = s" and "r < v + a" and "v \<le> w"
  shows "r \<le> w"
proof (rule ccontr)
  assume "\<not> r \<le> w"
  then have lt: "w < r" by simp
  have "r mod a = w mod a" using assms(2,3) by simp
  then have "a dvd (r - w)" using lt by (simp add: mod_eq_dvd_iff_nat)
  then have "a \<le> r - w" using lt by (simp add: dvd_imp_le)
  then show False using assms(4,5) lt by linarith
qed

lemma unat_align_with_skew:
  fixes v a skew :: u64
  assumes a: "a \<noteq> 0" and fit: "unat v + 2 * unat a < 2 ^ 64"
  shows "\<exists>r. align_with_skew v a skew = Some r \<and> unat v \<le> unat r \<and> unat r < unat v + unat a
            \<and> unat r mod unat a = unat skew mod unat a"
proof -
  let ?s = "skew mod a"
  have A: "0 < unat a" using a by (simp add: unat_gt_0)
  have S: "unat ?s = unat skew mod unat a" by (rule unat_mod)
  then have Sl: "unat ?s < unat a" using A by simp
  have "unat v + unat a < 2 ^ LENGTH(64)" using fit by simp
  then have va: "unat (v + a) = unat v + unat a" by (simp only: unat_add_lem)
  have "unat ?s \<le> unat (v + a)" using va Sl by linarith
  then have "?s \<le> v + a" by (simp only: word_le_nat_alt)
  then have "unat (v + a - ?s) = unat (v + a) - unat ?s" by (rule unat_sub)
  then have x: "unat (v + a - ?s) = unat v + unat a - unat ?s" by (simp only: va)
  let ?x = "v + a - ?s"
  have xpos: "0 < unat ?x" using x Sl by linarith
  have xfit: "unat ?x + unat a \<le> 2 ^ 64" using x fit by linarith
  let ?M = "align_to ?x a"
  define q where "q = (unat ?x + unat a - 1) div unat a"
  have M: "unat ?M = q * unat a"
    using unat_align_to [OF a xfit] by (simp only: q_def)
  have Mge: "unat ?x \<le> q * unat a" and Mlt: "q * unat a < unat ?x + unat a"
    using round_up_bounds [OF A, of "unat ?x"] by (simp_all only: q_def)
  have "0 < q" using Mge xpos by (cases q) simp_all
  then obtain q' where q': "q = Suc q'" by (cases q) simp_all
  have MA: "q * unat a = q' * unat a + unat a" using q' by simp
  have "unat a \<le> unat ?M" using M MA by linarith
  then have "a \<le> ?M" by (simp only: word_le_nat_alt)
  then have "unat (?M - a) = unat ?M - unat a" by (rule unat_sub)
  then have Ma: "unat (?M - a) = q' * unat a" using M MA by linarith
  have "unat (?M - a) + unat ?s < 2 ^ 64" using Ma MA Mlt x fit Sl by linarith
  then have "unat (?M - a) + unat ?s < 2 ^ LENGTH(64)" by simp
  then have "unat (?M - a + ?s) = unat (?M - a) + unat ?s" by (simp only: unat_add_lem)
  then have r: "unat (?M - a + ?s) = q' * unat a + unat ?s" by (simp only: Ma)
  have res: "align_with_skew v a skew = Some (?M - a + ?s)"
    using a by (simp add: align_with_skew_def Let_def)
  have 1: "unat v \<le> unat (?M - a + ?s)" using r Mge MA x Sl by linarith
  have 2: "unat (?M - a + ?s) < unat v + unat a" using r Mlt MA x Sl by linarith
  have "(q' * unat a + unat ?s) mod unat a = unat ?s" using Sl by simp
  then have 3: "unat (?M - a + ?s) mod unat a = unat skew mod unat a"
    by (simp only: r S)
  show ?thesis using res 1 2 3 by blast
qed


text \<open>The first two loops write nothing but addresses, the third nothing but file offsets.\<close>

lemma readdressed_refl: "readdressed c c"
  by (auto simp: readdressed_def set_sh_addr_def intro: exI [of _ "sh_addr (shdr c)"])

lemma readdressed_set: "readdressed c (set_sh_addr a c)"
  by (auto simp: readdressed_def)

lemma readdressed_trans: "readdressed a b \<Longrightarrow> readdressed b c \<Longrightarrow> readdressed a c"
  by (auto simp: readdressed_def set_sh_addr_def)

lemma readdressed_fields:
  assumes "readdressed c c'"
  shows "name c' = name c" "sh_type (shdr c') = sh_type (shdr c)"
    "sh_flags (shdr c') = sh_flags (shdr c)" "sh_size (shdr c') = sh_size (shdr c)"
    "sh_addralign (shdr c') = sh_addralign (shdr c)" "is_tbss c' = is_tbss c"
  using assms by (auto simp: readdressed_def set_sh_addr_def is_tbss_def)

lemma assign_addrs_shape:
  "list_all2 readdressed cs (fst (assign_addrs sep ps prev addr cs))"
proof (induction cs arbitrary: prev addr)
  case Nil
  then show ?case by simp
next
  case (Cons c cs)
  show ?case
    using Cons.IH
    by (auto simp: Let_def readdressed_refl readdressed_set split: prod.splits option.splits)
       (metis fst_conv)+
qed


lemma tbss_run_shape:
  "tbss_run a cs = (run, rest) \<Longrightarrow>
     \<exists>k. k \<le> length cs \<and> list_all2 readdressed (take k cs) run \<and> rest = drop k cs"
proof (induction cs arbitrary: a run rest)
  case Nil
  then show ?case by simp
next
  case (Cons c cs)
  show ?case
  proof (cases "is_tbss c")
    case True
    let ?a = "align_to a (sh_addralign (shdr c))"
    obtain run' rest' where r: "tbss_run (?a + sh_size (shdr c)) cs = (run', rest')"
      by (cases "tbss_run (?a + sh_size (shdr c)) cs")
    then have e: "run = set_sh_addr ?a c # run'" "rest = rest'"
      using Cons.prems True by (simp_all add: Let_def)
    from Cons.IH [OF r] obtain k where
      k: "k \<le> length cs" "list_all2 readdressed (take k cs) run'" "rest' = drop k cs"
      by blast
    have "Suc k \<le> length (c # cs)" using k(1) by simp
    moreover have "list_all2 readdressed (take (Suc k) (c # cs)) run"
      using k(2) e(1) by (simp add: readdressed_set)
    moreover have "rest = drop (Suc k) (c # cs)" using k(3) e(2) by simp
    ultimately show ?thesis by blast
  next
    case False
    then have "run = []" "rest = c # cs" using Cons.prems by simp_all
    then show ?thesis by (intro exI [of _ 0]) simp
  qed
qed

lemma fix_tbss_shape: "list_all2 readdressed cs (fix_tbss cs)"
proof (induction cs rule: fix_tbss.induct)
  case 1
  then show ?case by simp
next
  case (2 c cs)
  show ?case
  proof (cases "is_tbss c")
    case True
    obtain run rest where r: "tbss_run (sh_addr (shdr c)) (c # cs) = (run, rest)"
      by (cases "tbss_run (sh_addr (shdr c)) (c # cs)")
    from tbss_run_shape [OF r] obtain k where
      k: "list_all2 readdressed (take k (c # cs)) run" "rest = drop k (c # cs)"
      by blast
    have "list_all2 readdressed rest (fix_tbss rest)"
      using "2.IH"(1) [OF True r [symmetric]] .
    then have "list_all2 readdressed (take k (c # cs) @ drop k (c # cs)) (run @ fix_tbss rest)"
      using k by (intro list_all2_appendI) simp_all
    then show ?thesis using True r by simp
  next
    case False
    then show ?thesis using "2.IH"(2) by (simp add: readdressed_refl)
  qed
qed

lemma list_all2_readdressed_trans:
  "list_all2 readdressed xs ys \<Longrightarrow> list_all2 readdressed ys zs \<Longrightarrow> list_all2 readdressed xs zs"
  by (rule list_all2_trans [of readdressed readdressed readdressed]) (auto intro: readdressed_trans)

lemma addresses_shape:
  "list_all2 readdressed cs (fix_tbss (fst (assign_addrs sep ps None base cs)))"
  using assign_addrs_shape fix_tbss_shape by (rule list_all2_readdressed_trans)

lemma readdressed_sizes:
  "list_all2 readdressed cs cs' \<Longrightarrow>
     (\<Sum>c\<leftarrow>cs'. unat (sh_size (shdr c)) + n) = (\<Sum>c\<leftarrow>cs. unat (sh_size (shdr c)) + n)"
  by (induction rule: list_all2_induct) (simp_all add: readdressed_fields)



lemma offset_ok_skew:
  fixes f ps fo :: u64
  assumes ps: "ps \<noteq> 0" and ty: "sh_type (shdr c) \<noteq> SHT_NOBITS"
    and lo: "unat f \<le> unat fo" and hi: "unat fo < unat f + unat ps"
    and md: "unat fo mod unat ps = unat (sh_addr (shdr c)) mod unat ps"
  shows "offset_ok ps f (set_sh_offset fo c)"
proof -
  have A: "0 < unat ps" using ps by (simp add: unat_gt_0)
  have 1: "f \<le> fo" using lo by (simp only: word_le_nat_alt)
  have "unat (fo mod ps) = unat (sh_addr (shdr c) mod ps)" using md by (simp only: unat_mod)
  then have 2: "fo mod ps = sh_addr (shdr c) mod ps" by (simp only: word_unat_eq_iff)
  have 3: "fo \<le> v" if "f \<le> v" and "v mod ps = sh_addr (shdr c) mod ps" for v
  proof -
    have "unat f \<le> unat v" using that(1) by (simp only: word_le_nat_alt)
    moreover have "unat (v mod ps) = unat (sh_addr (shdr c) mod ps)" using that(2) by simp
    then have "unat v mod unat ps = unat (sh_addr (shdr c)) mod unat ps" by (simp only: unat_mod)
    ultimately have "unat fo \<le> unat v" using skew_minimal [OF A md _ hi] by blast
    then show ?thesis by (simp only: word_le_nat_alt)
  qed
  show ?thesis using ty 1 2 3 by (simp add: offset_ok_def set_sh_offset_def)
qed

lemma assign_offsets_laid_out:
  assumes ps: "ps \<noteq> 0"
    and fit: "unat f + (\<Sum>c\<leftarrow>cs. unat (sh_size (shdr c)) + unat ps) + 2 * unat ps < 2 ^ 64"
  shows "\<exists>res f'. assign_offsets ps f cs = Some (res, f') \<and> list_all2 reoffset cs res
           \<and> offsets_laid_out ps f res f'"
  using fit
proof (induction cs arbitrary: f)
  case Nil
  then show ?case by simp
next
  case (Cons c cs)
  let ?sum = "\<Sum>c\<leftarrow>cs. unat (sh_size (shdr c)) + unat ps"
  have fit: "unat f + (unat (sh_size (shdr c)) + unat ps + ?sum) + 2 * unat ps < 2 ^ 64"
    using Cons.prems by simp
  show ?case
  proof (cases "sh_type (shdr c) = SHT_NOBITS")
    case True
    have "unat f + ?sum + 2 * unat ps < 2 ^ 64" using fit by linarith
    from Cons.IH [OF this] obtain res f' where
      r: "assign_offsets ps f cs = Some (res, f')" "list_all2 reoffset cs res"
         "offsets_laid_out ps f res f'" by blast
    let ?c = "set_sh_offset f c"
    have "assign_offsets ps f (c # cs) = Some (?c # res, f')" using True r(1) by simp
    moreover have "reoffset c ?c" by (auto simp: reoffset_def)
    moreover have "offset_ok ps f ?c" using True by (simp add: offset_ok_def set_sh_offset_def)
    moreover have "file_end ?c = f" using True by (simp add: file_end_def set_sh_offset_def)
    ultimately show ?thesis using r(2,3) by simp
  next
    case False
    have "unat f + 2 * unat ps < 2 ^ 64" using fit by linarith
    from unat_align_with_skew [OF ps this, of "sh_addr (shdr c)"] obtain fo where
      fo: "align_with_skew f ps (sh_addr (shdr c)) = Some fo" "unat f \<le> unat fo"
          "unat fo < unat f + unat ps"
          "unat fo mod unat ps = unat (sh_addr (shdr c)) mod unat ps" by blast
    have "unat fo + unat (sh_size (shdr c)) < 2 ^ LENGTH(64)" using fo(3) fit by simp
    then have e: "unat (fo + sh_size (shdr c)) = unat fo + unat (sh_size (shdr c))"
      by (simp only: unat_add_lem)
    have "unat (fo + sh_size (shdr c)) + ?sum + 2 * unat ps < 2 ^ 64"
      using e fo(3) fit by linarith
    from Cons.IH [OF this] obtain res f' where
      r: "assign_offsets ps (fo + sh_size (shdr c)) cs = Some (res, f')"
         "list_all2 reoffset cs res"
         "offsets_laid_out ps (fo + sh_size (shdr c)) res f'" by blast
    let ?c = "set_sh_offset fo c"
    have "assign_offsets ps f (c # cs) = Some (?c # res, f')" using False fo(1) r(1) by simp
    moreover have "reoffset c ?c" by (auto simp: reoffset_def)
    moreover have "offset_ok ps f ?c" using offset_ok_skew [OF ps False fo(2,3,4)] .
    moreover have "file_end ?c = fo + sh_size (shdr c)"
      using False by (simp add: file_end_def set_sh_offset_def)
    ultimately show ?thesis using r(2,3) by simp
  qed
qed


lemma readdressed_header: "list_all2 readdressed cs cs' \<Longrightarrow> map header cs' = map header cs"
  by (induction rule: list_all2_induct)
     (auto simp: header_def readdressed_def set_sh_addr_def)

lemma reoffset_header: "list_all2 reoffset cs cs' \<Longrightarrow> map header cs' = map header cs"
  by (induction rule: list_all2_induct)
     (auto simp: header_def reoffset_def set_sh_offset_def)

text \<open>
  C3, amended. When the page size is not 0 and the file stays below \<open>2\<^sup>6\<^sup>4\<close> bytes (the sizes
  of the chunks, a page of padding for each, and two pages more), \<^verbatim>\<open>set_osec_offsets\<close>
  returns, changes no chunk but for its address and file offset, and places every chunk,
  allocated or not, as follows. A \<^verbatim>\<open>SHT_NOBITS\<close> chunk gets the file cursor that the chunk
  before it left and leaves it where it is. Any other chunk gets the smallest offset, from
  the cursor on, that is congruent to its \<^verbatim>\<open>sh_addr\<close> modulo the page size, and leaves the
  cursor behind its last byte. Nothing is said of the congruence for a \<^verbatim>\<open>SHT_NOBITS\<close> chunk.
\<close>

theorem set_osec_offsets_file_offsets:
  assumes "page_size \<noteq> 0"
    and "(\<Sum>c\<leftarrow>chunks. unat (sh_size (shdr c)) + unat page_size) + 2 * unat page_size < 2 ^ 64"
  shows "\<exists>res fileoff.
           set_osec_offsets separate_page image_base page_size chunks = Some (res, fileoff)
           \<and> map header res = map header chunks
           \<and> offsets_laid_out page_size 0 res fileoff"
proof -
  let ?cs = "fix_tbss (fst (assign_addrs separate_page page_size None image_base chunks))"
  have sh: "list_all2 readdressed chunks ?cs" by (rule addresses_shape)
  have "unat (0 :: u64) + (\<Sum>c\<leftarrow>?cs. unat (sh_size (shdr c)) + unat page_size)
          + 2 * unat page_size < 2 ^ 64"
    using assms(2) readdressed_sizes [OF sh, of "unat page_size"] by simp
  from assign_offsets_laid_out [OF assms(1) this] obtain res fileoff where
    r: "assign_offsets page_size 0 ?cs = Some (res, fileoff)" "list_all2 reoffset ?cs res"
       "offsets_laid_out page_size 0 res fileoff" by blast
  have "map header res = map header chunks"
    using reoffset_header [OF r(2)] readdressed_header [OF sh] by simp
  then show ?thesis using r(1,3) by (simp add: set_osec_offsets_def)
qed

theorem set_osec_offsets_file_offsets_witness:
  "\<exists>res fileoff.
     set_osec_offsets (\<lambda>x y. sh_flags (shdr x) \<noteq> sh_flags (shdr y)) 0x200000 0x1000
       [mk_chunk ''.text'' 1 6 0x25 16, mk_chunk ''.data'' 1 3 0x10 8,
        mk_chunk ''.bss'' 8 3 8 0x20, mk_chunk ''.comment'' 1 0 0x30 1] = Some (res, fileoff)
     \<and> map placed res = [(''.text'', 0x200000, 0), (''.data'', 0x201000, 0x1000),
                           (''.bss'', 0x201020, 0x1010), (''.comment'', 0, 0x2000)]
     \<and> fileoff = 0x2030
     \<and> offsets_laid_out 0x1000 0 res fileoff"
proof -
  let ?chunks = "[mk_chunk ''.text'' 1 6 0x25 16, mk_chunk ''.data'' 1 3 0x10 8,
        mk_chunk ''.bss'' 8 3 8 0x20, mk_chunk ''.comment'' 1 0 0x30 1]"
  have h1: "(0x1000 :: u64) \<noteq> 0" by simp
  have h2: "(\<Sum>c\<leftarrow>?chunks. unat (sh_size (shdr c)) + unat (0x1000 :: u64))
              + 2 * unat (0x1000 :: u64) < 2 ^ 64"
    by (simp add: mk_chunk_def)
  from set_osec_offsets_file_offsets [OF h1 h2] obtain res fileoff where
    r: "set_osec_offsets (\<lambda>x y. sh_flags (shdr x) \<noteq> sh_flags (shdr y)) 0x200000 0x1000 ?chunks
          = Some (res, fileoff)"
      "offsets_laid_out 0x1000 0 res fileoff" by blast
  have "map_option (\<lambda>(res, f). (map placed res, f))
          (set_osec_offsets (\<lambda>x y. sh_flags (shdr x) \<noteq> sh_flags (shdr y)) 0x200000 0x1000 ?chunks)
        = Some ([(''.text'', 0x200000, 0), (''.data'', 0x201000, 0x1000),
                           (''.bss'', 0x201020, 0x1010), (''.comment'', 0, 0x2000)], 0x2030)"
    by (simp add: layout_simps)
  then show ?thesis using r by auto
qed


text \<open>
  C3, as the claim states it, fails for an allocated \<^verbatim>\<open>SHT_NOBITS\<close> chunk: \<^verbatim>\<open>.bss\<close>,
  aligned to 32 bytes, goes to address \<^verbatim>\<open>0x200020\<close> and takes the file cursor
  \<^verbatim>\<open>0x10\<close> as its offset, and the two differ modulo the page size \<^verbatim>\<open>0x1000\<close>.
\<close>

theorem set_osec_offsets_bss_not_congruent:
  "map_option (map placed \<circ> fst)
     (set_osec_offsets (\<lambda>x y. False) 0x200000 0x1000
        [mk_chunk ''.data'' 1 3 0x10 1, mk_chunk ''.bss'' 8 3 8 0x20])
     = Some [(''.data'', 0x200000, 0), (''.bss'', 0x200020, 0x10)]
   \<and> sh_flags (shdr (mk_chunk ''.bss'' 8 3 8 0x20)) AND SHF_ALLOC \<noteq> 0
   \<and> (0x10 :: u64) mod 0x1000 \<noteq> 0x200020 mod 0x1000"
  by (simp add: layout_simps)

text \<open>The first loop on a list put together, and on a run of tbss chunks.\<close>

lemma is_tbss_set_sh_addr [simp]: "is_tbss (set_sh_addr a c) = is_tbss c"
  by (simp add: is_tbss_def set_sh_addr_def)

lemma shdr_set_sh_addr [simp]:
  "sh_addr (shdr (set_sh_addr a c)) = a"
  "sh_size (shdr (set_sh_addr a c)) = sh_size (shdr c)"
  "sh_addralign (shdr (set_sh_addr a c)) = sh_addralign (shdr c)"
  "sh_flags (shdr (set_sh_addr a c)) = sh_flags (shdr c)"
  "sh_type (shdr (set_sh_addr a c)) = sh_type (shdr c)"
  by (simp_all add: set_sh_addr_def)


lemma assign_addrs_length:
  "assign_addrs sep ps prev a cs = (cs', a') \<Longrightarrow> length cs' = length cs"
  using assign_addrs_shape [of cs sep ps prev a] by (auto dest: list_all2_lengthD)



















section \<open>Properties of \<^verbatim>\<open>compute_section_sizes\<close>\<close>

text \<open>The scan and the sequential layout on members of one byte, aligned to 1.\<close>

lemma align_to_1 [simp]: "align_to x 1 = x"
  by (simp add: align_to_def)

lemma max_i64_idem: "max_i64 (max_i64 a b) b = max_i64 a b"
  by (simp add: max_i64_def)

lemma max_i64_numerals: "max_i64 1 1 = 1" "max_i64 1 16 = 16" "max_i64 16 1 = 16"
  by (simp_all add: max_i64_def word_sless_alt)

lemma scan_body_length: "length (snd (scan_body f acc ms)) = length ms"
  by (induction ms arbitrary: acc) (simp_all add: Let_def case_prod_beta)

lemma scan_body_unit_step:
  "fst (scan_body f acc (text_isec 1 1 # ms))
     = fst (scan_body f \<lparr>t_offset = t_offset acc + 1, t_align = max_i64 (t_align acc) 1\<rparr> ms)"
  by (simp add: text_isec_def Let_def case_prod_beta)

lemma scan_body_unit:
  "fst (scan_body f acc (replicate n (text_isec 1 1)))
     = (if n = 0 then acc
        else \<lparr>t_offset = t_offset acc + of_nat n, t_align = max_i64 (t_align acc) 1\<rparr>)"
proof (induction n arbitrary: acc)
  case 0
  then show ?case by simp
next
  case (Suc n)
  have "fst (scan_body f acc (replicate (Suc n) (text_isec 1 1)))
          = fst (scan_body f \<lparr>t_offset = t_offset acc + 1, t_align = max_i64 (t_align acc) 1\<rparr>
                   (replicate n (text_isec 1 1)))"
    by (simp only: replicate_Suc scan_body_unit_step)
  also have "\<dots> = (if n = 0 then \<lparr>t_offset = t_offset acc + 1, t_align = max_i64 (t_align acc) 1\<rparr>
        else \<lparr>t_offset = t_offset acc + 1 + of_nat n, t_align = max_i64 (max_i64 (t_align acc) 1) 1\<rparr>)"
    by (simp only: Suc.IH scan_T.simps)
  also have "\<dots> = \<lparr>t_offset = t_offset acc + of_nat (Suc n), t_align = max_i64 (t_align acc) 1\<rparr>"
    by (simp add: max_i64_idem add.assoc)
  finally show ?case by simp
qed

lemma scan_body_hd:
  "snd (scan_body True acc (m # ms)) ! 0
     = m\<lparr>offset := align_to (t_offset acc) (sh_addralign (isec_shdr m))\<rparr>"
  by (simp add: Let_def case_prod_beta)

lemma sequential_offsets_append:
  "sequential_offsets e (xs @ ys) =
     (case sequential_offsets e xs of
        (xs', e1) \<Rightarrow> (case sequential_offsets e1 ys of (ys', e2) \<Rightarrow> (xs' @ ys', e2)))"
  by (induction xs arbitrary: e) (simp_all add: Let_def case_prod_beta)

lemma sequential_offsets_unit:
  "sequential_offsets e (replicate n (text_isec 1 1))
     = (map (\<lambda>i. (text_isec 1 1)\<lparr>offset := e + of_nat i\<rparr>) [0..<n], e + of_nat n)"
proof (induction n arbitrary: e)
  case 0
  then show ?case by simp
next
  case (Suc n)
  have "sequential_offsets e (replicate (Suc n) (text_isec 1 1))
          = (case sequential_offsets (e + 1) (replicate n (text_isec 1 1)) of
               (rest', e') \<Rightarrow> ((text_isec 1 1)\<lparr>offset := e\<rparr> # rest', e'))"
    by (simp add: text_isec_def Let_def)
  also have "\<dots> = ((text_isec 1 1)\<lparr>offset := e\<rparr>
                     # map (\<lambda>i. (text_isec 1 1)\<lparr>offset := e + 1 + of_nat i\<rparr>) [0..<n],
                   e + 1 + of_nat n)"
    by (simp add: Suc.IH)
  also have "\<dots> = (map (\<lambda>i. (text_isec 1 1)\<lparr>offset := e + of_nat i\<rparr>) [0..<Suc n],
                   e + of_nat (Suc n))"
    by (simp add: map_upt_Suc add.assoc del: upt_Suc)
  finally show ?case .
qed

lemma ranges_30000:
  "split_range 10000 (0, 30000) = [(0, 7500), (7500, 15000), (15000, 22500), (22500, 30000)]"
  by simp


lemma sequential_offsets_unit_nth:
  "length (fst (sequential_offsets e (replicate n (text_isec 1 1)))) = n"
  "snd (sequential_offsets e (replicate n (text_isec 1 1))) = e + of_nat n"
  "i < n \<Longrightarrow> fst (sequential_offsets e (replicate n (text_isec 1 1))) ! i
                 = (text_isec 1 1)\<lparr>offset := e + of_nat i\<rparr>"
  by (simp_all add: sequential_offsets_unit del: upt_rec_numeral)

lemma take_drop_1: "take 7500 (drop 0 (members big_text)) = replicate 7500 (text_isec 1 1)"
  by (simp add: big_text_def)


lemma take_drop_2: "take 7500 (drop 7500 (members big_text))
   = text_isec 1 1 # text_isec 1 16 # replicate 7498 (text_isec 1 1)"
  by (simp add: big_text_def)

lemma take_drop_3: "take 7500 (drop 15000 (members big_text)) = replicate 7500 (text_isec 1 1)"
  by (simp add: big_text_def)

lemma take_drop_4: "take 7500 (drop 22500 (members big_text)) = replicate 7500 (text_isec 1 1)"
  by (simp add: big_text_def)


lemma slices_30000:
  "map (\<lambda>(b, e). take (e - b) (drop b (members big_text))) (split_range 10000 (0, 30000))
     = [replicate 7500 (text_isec 1 1),
        text_isec 1 1 # text_isec 1 16 # replicate 7498 (text_isec 1 1),
        replicate 7500 (text_isec 1 1),
        replicate 7500 (text_isec 1 1)]"
proof -
  have d: "(7500 :: nat) - 0 = 7500" "(15000 :: nat) - 7500 = 7500"
    "(22500 :: nat) - 15000 = 7500" "(30000 :: nat) - 22500 = 7500" by simp_all
  show ?thesis
    by (simp only: ranges_30000 list.map prod.case d take_drop_1 take_drop_2 take_drop_3
        take_drop_4)
qed

lemma s0: "fst (scan_body False scan_identity (replicate 7500 (text_isec 1 1))) = \<lparr>t_offset = 7500, t_align = 1\<rparr>"
    by (simp add: scan_body_unit scan_identity_def max_i64_numerals)


lemma text_isec_fields:
  "sh_size (isec_shdr (text_isec sz al)) = sz" "sh_addralign (isec_shdr (text_isec sz al)) = al"
  by (simp_all add: text_isec_def)

lemma scan_body_step:
  "fst (scan_body f acc (m # ms))
     = fst (scan_body f
         \<lparr>t_offset = align_to (t_offset acc) (sh_addralign (isec_shdr m)) + sh_size (isec_shdr m),
          t_align = max_i64 (t_align acc) (sh_addralign (isec_shdr m))\<rparr> ms)"
  by (simp add: Let_def case_prod_beta)

lemma align_to_numerals: "align_to 1 16 = 16" "align_to 7500 16 = 7504" "align_to 7501 16 = 7504"
  "align_to 0 1 = 0" "align_to 0 16 = 0"
  by (simp_all add: align_to_def)

lemma s1: "fst (scan_body False scan_identity (text_isec 1 1 # text_isec 1 16 # replicate 7498 (text_isec 1 1)))
              = \<lparr>t_offset = 7515, t_align = 16\<rparr>"
  by (simp add: scan_body_step text_isec_fields scan_body_unit scan_identity_def max_i64_numerals
      align_to_numerals del: scan_body.simps)

lemma combines:
  "combine scan_identity \<lparr>t_offset = 7500, t_align = 1\<rparr> = \<lparr>t_offset = 7500, t_align = 1\<rparr>"
  "combine \<lparr>t_offset = 7500, t_align = 1\<rparr> \<lparr>t_offset = 7515, t_align = 16\<rparr>
     = \<lparr>t_offset = 15019, t_align = 16\<rparr>"
  "combine \<lparr>t_offset = 15019, t_align = 16\<rparr> \<lparr>t_offset = 7500, t_align = 1\<rparr>
     = \<lparr>t_offset = 22519, t_align = 16\<rparr>"
  "combine \<lparr>t_offset = 22519, t_align = 16\<rparr> \<lparr>t_offset = 7500, t_align = 1\<rparr>
     = \<lparr>t_offset = 30019, t_align = 16\<rparr>"
  by (simp_all add: combine_def scan_identity_def max_i64_numerals align_to_numerals)


lemma parallel_30000:
  "parallel_scan 10000 (members big_text)
     = (\<lparr>t_offset = 30019, t_align = 16\<rparr>,
        snd (scan_body True scan_identity (replicate 7500 (text_isec 1 1)))
        @ snd (scan_body True \<lparr>t_offset = 7500, t_align = 1\<rparr>
                 (text_isec 1 1 # text_isec 1 16 # replicate 7498 (text_isec 1 1)))
        @ snd (scan_body True \<lparr>t_offset = 15019, t_align = 16\<rparr> (replicate 7500 (text_isec 1 1)))
        @ snd (scan_body True \<lparr>t_offset = 22519, t_align = 16\<rparr> (replicate 7500 (text_isec 1 1)))
        @ [])"
proof -
  have len: "length (members big_text) = 30000" by (simp add: big_text_def)
  show ?thesis
    unfolding parallel_scan_def len slices_30000
    by (simp only: scan_ranges.simps Let_def s0 s1 combines prod.case)
qed

lemma parallel_30000_nth:
  "offset (snd (parallel_scan 10000 (members big_text)) ! 15000) = 15019"
proof -
  have r: "replicate 7500 (text_isec 1 1) = text_isec 1 1 # replicate 7499 (text_isec 1 1)"
    by (simp add: replicate_Suc [symmetric] del: replicate_Suc)
  have "snd (parallel_scan 10000 (members big_text)) ! 15000
          = snd (scan_body True \<lparr>t_offset = 15019, t_align = 16\<rparr> (replicate 7500 (text_isec 1 1))) ! 0"
    by (simp add: parallel_30000 nth_append scan_body_length del: scan_body.simps)
  also have "\<dots> = (text_isec 1 1)\<lparr>offset := 15019\<rparr>"
    by (simp only: r scan_body_hd) (simp add: text_isec_fields)
  finally show ?thesis by simp
qed


lemma sequential_offsets_step:
  "sequential_offsets e (m # ms)
     = (m\<lparr>offset := align_to e (sh_addralign (isec_shdr m))\<rparr>
          # fst (sequential_offsets
                  (align_to e (sh_addralign (isec_shdr m)) + sh_size (isec_shdr m)) ms),
        snd (sequential_offsets
               (align_to e (sh_addralign (isec_shdr m)) + sh_size (isec_shdr m)) ms))"
  by (simp add: Let_def case_prod_beta)

lemma sequential_30000:
  "sequential_offsets 0 (members big_text)
     = (fst (sequential_offsets 0 (replicate 7501 (text_isec 1 1)))
        @ (text_isec 1 16)\<lparr>offset := 7504\<rparr>
        # fst (sequential_offsets 7505 (replicate 22498 (text_isec 1 1))),
        30003)"
proof -
  let ?A = "replicate 7501 (text_isec 1 1)" and ?B = "replicate 22498 (text_isec 1 1)"
  have m: "members big_text = ?A @ text_isec 1 16 # ?B"
    by (simp add: big_text_def)
  have "snd (sequential_offsets 0 ?A) = 7501"
    by (simp only: sequential_offsets_unit_nth(2)) simp
  then have a: "sequential_offsets 0 ?A = (fst (sequential_offsets 0 ?A), 7501)"
    by (metis prod.collapse)
  have sb: "snd (sequential_offsets 7505 ?B) = 30003"
    by (simp only: sequential_offsets_unit_nth(2)) simp
  then have b: "sequential_offsets 7505 ?B = (fst (sequential_offsets 7505 ?B), 30003)"
    by (metis prod.collapse)
  have "sequential_offsets 7501 (text_isec 1 16 # ?B)
          = ((text_isec 1 16)\<lparr>offset := align_to 7501 16\<rparr>
               # fst (sequential_offsets (align_to 7501 16 + 1) ?B),
             snd (sequential_offsets (align_to 7501 16 + 1) ?B))"
    by (simp only: sequential_offsets_step text_isec_fields)
  also have "align_to 7501 16 + 1 = (7505 :: u64)" by (simp add: align_to_numerals)
  finally have w: "sequential_offsets 7501 (text_isec 1 16 # ?B)
          = ((text_isec 1 16)\<lparr>offset := 7504\<rparr> # fst (sequential_offsets 7505 ?B), 30003)"
    by (simp only: align_to_numerals sb)
  have "sequential_offsets 0 (?A @ text_isec 1 16 # ?B)
          = (case sequential_offsets 0 ?A of
               (xs', e1) \<Rightarrow> (case sequential_offsets e1 (text_isec 1 16 # ?B) of
                               (ys', e2) \<Rightarrow> (xs' @ ys', e2)))"
    by (rule sequential_offsets_append)
  also have "\<dots> = (case sequential_offsets 7501 (text_isec 1 16 # ?B) of
                               (ys', e2) \<Rightarrow> (fst (sequential_offsets 0 ?A) @ ys', e2))"
    by (subst a) (simp only: prod.case)
  also have "\<dots> = (fst (sequential_offsets 0 ?A)
                    @ (text_isec 1 16)\<lparr>offset := 7504\<rparr> # fst (sequential_offsets 7505 ?B), 30003)"
    by (simp only: w prod.case)
  finally show ?thesis by (simp only: m)
qed

lemma sequential_30000_nth:
  "offset (fst (sequential_offsets 0 (members big_text)) ! 15000) = 15003"
proof -
  have "fst (sequential_offsets 0 (members big_text)) ! 15000
          = fst (sequential_offsets 7505 (replicate 22498 (text_isec 1 1))) ! 7498"
    by (simp add: sequential_30000 nth_append sequential_offsets_unit_nth(1)
        del: sequential_offsets.simps)
  also have "\<dots> = (text_isec 1 1)\<lparr>offset := 15003\<rparr>"
    by (simp add: sequential_offsets_unit_nth(3) del: sequential_offsets.simps)
  finally show ?thesis by simp
qed

lemma big_text_members: "members big_text \<noteq> []"
  by (simp add: big_text_def)

text \<open>
  C5. The claim: whatever the ranges, the pass gives every member the offset, and the section
  the size and alignment, of the sequential computation. The code does not. \<open>combine\<close>
  rounds the sum on its left up to the largest alignment of the range on its right, while
  the scan body rounds it up to the alignment of the first member of that range only. On
  \<open>big_text\<close>, 30000 members of one byte, \<^verbatim>\<open>blocked_range(0, 30000, 10000)\<close> is split
  into four ranges of 7500 members; the second range holds a member aligned to 16 behind a
  member aligned to 1. The sequential layout puts member 15000 at offset 15003 and ends at
  30003; the ranges joined by \<open>combine\<close> put it at 15019 and end at 30019.
\<close>

theorem compute_section_sizes_differs:
  "offset (members (compute_section_sizes big_text) ! 15000) = 15019
   \<and> offset (members (sequential_sizes big_text) ! 15000) = 15003
   \<and> sh_size (shdr (compute_section_sizes big_text)) = 30019
   \<and> sh_size (shdr (sequential_sizes big_text)) = 30003"
proof -
  have p: "members (compute_section_sizes big_text) = snd (parallel_scan 10000 (members big_text))"
    "sh_size (shdr (compute_section_sizes big_text))
       = t_offset (fst (parallel_scan 10000 (members big_text)))"
    by (simp_all add: compute_section_sizes_def big_text_members case_prod_beta)
  have q: "members (sequential_sizes big_text) = fst (sequential_offsets 0 (members big_text))"
    "sh_size (shdr (sequential_sizes big_text)) = snd (sequential_offsets 0 (members big_text))"
    by (simp_all add: sequential_sizes_def big_text_members case_prod_beta
        del: sequential_offsets.simps)
  have "t_offset (fst (parallel_scan 10000 (members big_text))) = 30019"
    by (subst parallel_30000) simp
  moreover have "snd (sequential_offsets 0 (members big_text)) = 30003"
    by (subst sequential_30000) simp
  ultimately show ?thesis
    by (simp only: p q parallel_30000_nth sequential_30000_nth) 
qed

section \<open>Properties of \<^verbatim>\<open>scan_rels\<close>\<close>

text \<open>What the loop over the aliases leaves alone.\<close>

lemma same_but_syms_refl: "same_but_syms s s"
  by (simp add: same_but_syms_def)

lemma same_but_syms_trans:
  "same_but_syms a b \<Longrightarrow> same_but_syms b c \<Longrightarrow> same_but_syms a c"
  by (auto simp: same_but_syms_def)

lemma add_aux_same: "same_but_syms s (add_aux y s)"
  by (simp add: same_but_syms_def add_aux_def upd_sym_def)

lemma alias_step_same: "same_but_syms s (alias_step y s a)"
  by (auto simp: same_but_syms_def alias_step_def add_aux_def upd_sym_def Let_def)

lemma alias_fold_same: "same_but_syms s (foldl (alias_step y) s as)"
proof (induction as rule: rev_induct)
  case Nil
  then show ?case by (simp add: same_but_syms_refl)
next
  case (snoc a as)
  then show ?case using alias_step_same same_but_syms_trans by fastforce
qed




lemma scan_symbol_head:
  "scan_symbol P Q y s =
     (case copyrel_step P Q y (scan_head y s) of
        None \<Rightarrow> None
      | Some c \<Rightarrow> Some (upd_sym y (\<lambda>s. s\<lparr>flags := {}\<rparr>) c))"
  by (simp add: scan_symbol_def scan_head_def Let_def)

lemma scan_head_plt:
  "plt_syms (scan_head y s)
     = plt_syms s @ (if NEEDS_PLT \<in> flags (syms s y)
                        \<and> ((\<not> pic s \<and> is_imported (syms s y)) \<or> NEEDS_GOT \<notin> flags (syms s y))
                      then [y] else [])"
  "pltgot_syms (scan_head y s)
     = pltgot_syms s @ (if NEEDS_PLT \<in> flags (syms s y) \<and> NEEDS_GOT \<in> flags (syms s y)
                           \<and> \<not> (\<not> pic s \<and> is_imported (syms s y))
                         then [y] else [])"
  "NEEDS_PLT \<in> flags (syms s y) \<Longrightarrow> \<not> pic s \<Longrightarrow> is_imported (syms s y)
     \<Longrightarrow> is_exported (syms (scan_head y s) y)"
  by (simp_all add: scan_head_def plt_step_def add_aux_def upd_sym_def Let_def)

lemma scan_head_kept:
  "pic (scan_head y s) = pic s" "objs (scan_head y s) = objs s" "dsos (scan_head y s) = dsos s"
  "dynbss_syms (scan_head y s) = dynbss_syms s"
  "dynbss_relro_syms (scan_head y s) = dynbss_relro_syms s"
  "flags (syms (scan_head y s) x) = flags (syms s x)"
  "sym_file (syms (scan_head y s) x) = sym_file (syms s x)"
  "is_imported (syms (scan_head y s) x) = is_imported (syms s x)"
  "sym_value (syms (scan_head y s) x) = sym_value (syms s x)"
  "is_exported (syms s x) \<Longrightarrow> is_exported (syms (scan_head y s) x)"
  "has_copyrel (syms s x) \<Longrightarrow> has_copyrel (syms (scan_head y s) x)"
  "set (dynsym_syms s) \<subseteq> set (dynsym_syms (scan_head y s))"
  by (auto simp: scan_head_def plt_step_def add_aux_def upd_sym_def Let_def)


text \<open>The block for copy relocations.\<close>

lemma copyrel_step_cases:
  assumes "copyrel_step P Q y h = Some c"
  shows "(NEEDS_COPYREL \<notin> flags (syms h y) \<and> c = h)
         \<or> (NEEDS_COPYREL \<in> flags (syms h y)
            \<and> (\<exists>f. sym_file (syms h y) = Some f \<and> file_is_dso h f
                   \<and> c = foldl (alias_step y) (copyrel_marked P f y h) (Q f y)))"
  using assms
  by (auto simp: copyrel_step_def copyrel_marked_def Let_def split: if_splits option.splits)

lemma copyrel_marked_fields:
  "pic (copyrel_marked P f y h) = pic h" "objs (copyrel_marked P f y h) = objs h"
  "dsos (copyrel_marked P f y h) = dsos h" "got_syms (copyrel_marked P f y h) = got_syms h"
  "plt_syms (copyrel_marked P f y h) = plt_syms h"
  "pltgot_syms (copyrel_marked P f y h) = pltgot_syms h"
  "dynsym_syms (copyrel_marked P f y h) = dynsym_syms h"
  "flags (syms (copyrel_marked P f y h) x) = flags (syms h x)"
  "sym_file (syms (copyrel_marked P f y h) x) = sym_file (syms h x)"
  "is_imported (syms (copyrel_marked P f y h) x) = is_imported (syms h x)"
  "has_copyrel (syms (copyrel_marked P f y h) x) = has_copyrel (syms h x)"
  "sym_value (syms (copyrel_marked P f y h) x) = sym_value (syms h x)"
  "is_exported (syms (copyrel_marked P f y h) x) = (x = y \<or> is_exported (syms h x))"
  "copyrel_readonly (syms (copyrel_marked P f y h) y) = P f y"
  "dynbss_relro_syms (copyrel_marked P f y h)
     = dynbss_relro_syms h @ (if P f y then [y] else [])"
  "dynbss_syms (copyrel_marked P f y h) = dynbss_syms h @ (if P f y then [] else [y])"
  by (simp_all add: copyrel_marked_def upd_sym_def Let_def)

lemma kept_refl: "kept s s"
  by (simp add: kept_def)

lemma kept_trans: "kept a b \<Longrightarrow> kept b c \<Longrightarrow> kept a c"
  by (auto simp: kept_def)

lemma same_but_syms_kept: "same_but_syms s s' \<Longrightarrow> kept s s'"
  by (auto simp: same_but_syms_def kept_def)

lemma copyrel_step_kept:
  assumes "copyrel_step P Q y h = Some c"
  shows "kept h c" "plt_syms c = plt_syms h" "pltgot_syms c = pltgot_syms h"
    "flags (syms c x) = flags (syms h x)"
proof -
  from copyrel_step_cases [OF assms]
  have "kept h c \<and> plt_syms c = plt_syms h \<and> pltgot_syms c = pltgot_syms h
        \<and> flags (syms c x) = flags (syms h x)"
  proof (elim disjE conjE exE)
    assume "c = h"
    then show ?thesis by (simp add: kept_refl)
  next
    fix f
    assume c: "c = foldl (alias_step y) (copyrel_marked P f y h) (Q f y)"
    have m: "kept h (copyrel_marked P f y h)"
      by (simp add: kept_def copyrel_marked_fields)
    have a: "same_but_syms (copyrel_marked P f y h) c"
      unfolding c by (rule alias_fold_same)
    then have "kept h c" using m same_but_syms_kept kept_trans by blast
    moreover have "plt_syms c = plt_syms h" "pltgot_syms c = pltgot_syms h"
      "flags (syms c x) = flags (syms h x)"
      using a by (simp_all add: same_but_syms_def copyrel_marked_fields)
    ultimately show ?thesis by simp
  qed
  then show "kept h c" "plt_syms c = plt_syms h" "pltgot_syms c = pltgot_syms h"
    "flags (syms c x) = flags (syms h x)" by simp_all
qed

lemma scan_head_kept': "kept s (scan_head y s)"
  by (simp add: kept_def scan_head_kept)

text \<open>One turn of the loop.\<close>

lemma scan_symbol_step:
  assumes "scan_symbol P Q y s = Some s'"
  shows "kept s s'"
    and "plt_syms s'
           = plt_syms s @ (if NEEDS_PLT \<in> flags (syms s y)
                        \<and> ((\<not> pic s \<and> is_imported (syms s y)) \<or> NEEDS_GOT \<notin> flags (syms s y))
                      then [y] else [])"
    and "pltgot_syms s'
           = pltgot_syms s @ (if NEEDS_PLT \<in> flags (syms s y) \<and> NEEDS_GOT \<in> flags (syms s y)
                           \<and> \<not> (\<not> pic s \<and> is_imported (syms s y))
                         then [y] else [])"
    and "flags (syms s' x) = (if x = y then {} else flags (syms s x))"
    and "NEEDS_PLT \<in> flags (syms s y) \<Longrightarrow> \<not> pic s \<Longrightarrow> is_imported (syms s y)
           \<Longrightarrow> is_exported (syms s' y)"
proof -
  from assms obtain c where c: "copyrel_step P Q y (scan_head y s) = Some c"
    and s': "s' = upd_sym y (\<lambda>s. s\<lparr>flags := {}\<rparr>) c"
    by (auto simp: scan_symbol_head split: option.splits)
  note k = copyrel_step_kept [OF c]
  have kc: "kept c s'" by (simp add: s' kept_def upd_sym_def)
  show "kept s s'" using scan_head_kept' k(1) kc kept_trans by blast
  show "plt_syms s'
           = plt_syms s @ (if NEEDS_PLT \<in> flags (syms s y)
                        \<and> ((\<not> pic s \<and> is_imported (syms s y)) \<or> NEEDS_GOT \<notin> flags (syms s y))
                      then [y] else [])"
    using k(2) scan_head_plt(1) [of y s] by (simp add: s' upd_sym_def)
  show "pltgot_syms s'
           = pltgot_syms s @ (if NEEDS_PLT \<in> flags (syms s y) \<and> NEEDS_GOT \<in> flags (syms s y)
                           \<and> \<not> (\<not> pic s \<and> is_imported (syms s y))
                         then [y] else [])"
    using k(3) scan_head_plt(2) [of y s] by (simp add: s' upd_sym_def)
  show "flags (syms s' x) = (if x = y then {} else flags (syms s x))"
    using k(4) [of x] by (simp add: s' upd_sym_def scan_head_kept)
  show "is_exported (syms s' y)"
    if "NEEDS_PLT \<in> flags (syms s y)" "\<not> pic s" "is_imported (syms s y)"
    using scan_head_plt(3) [OF that] k(1) kc by (simp add: kept_def)
qed


text \<open>The loop.\<close>

lemma scan_symbols_append:
  "scan_symbols P Q (xs @ ys) s =
     (case scan_symbols P Q xs s of None \<Rightarrow> None | Some m \<Rightarrow> scan_symbols P Q ys m)"
  by (induction xs arbitrary: s) (simp_all split: option.splits)

lemma scan_symbols_kept: "scan_symbols P Q xs s = Some s' \<Longrightarrow> kept s s'"
proof (induction xs arbitrary: s)
  case Nil
  then show ?case by (simp add: kept_refl)
next
  case (Cons x xs)
  then obtain m where m: "scan_symbol P Q x s = Some m" "scan_symbols P Q xs m = Some s'"
    by (auto split: option.splits)
  show ?case using scan_symbol_step(1) [OF m(1)] Cons.IH [OF m(2)] kept_trans by blast
qed

lemma scan_symbols_done:
  assumes "scan_symbols P Q xs s = Some s'" and "flags (syms s y) = {}"
  shows "count_list (plt_syms s') y = count_list (plt_syms s) y
         \<and> count_list (pltgot_syms s') y = count_list (pltgot_syms s) y"
  using assms
proof (induction xs arbitrary: s)
  case Nil
  then show ?case by simp
next
  case (Cons x xs)
  then obtain m where m: "scan_symbol P Q x s = Some m" "scan_symbols P Q xs m = Some s'"
    by (auto split: option.splits)
  note st = scan_symbol_step [OF m(1)]
  have f: "flags (syms m y) = {}" using st(4) [of y] Cons.prems(2) by simp
  have "count_list (plt_syms m) y = count_list (plt_syms s) y"
    "count_list (pltgot_syms m) y = count_list (pltgot_syms s) y"
    using st(2,3) Cons.prems(2) by auto
  then show ?case using Cons.IH [OF m(2) f] by simp
qed

lemma file_is_dso_kept: "kept s s' \<Longrightarrow> file_is_dso s' f = file_is_dso s f"
  by (simp add: kept_def file_is_dso_def)

lemma scan_symbol_total:
  assumes "NEEDS_COPYREL \<in> flags (syms s y) \<longrightarrow>
             (\<exists>f. sym_file (syms s y) = Some f \<and> file_is_dso s f)"
  shows "\<exists>s'. scan_symbol P Q y s = Some s'"
proof -
  have "file_is_dso (scan_head y s) f = file_is_dso s f" for f
    using file_is_dso_kept [OF scan_head_kept'] .
  then have "\<exists>c. copyrel_step P Q y (scan_head y s) = Some c"
    using assms by (auto simp: copyrel_step_def Let_def scan_head_kept)
  then show ?thesis by (auto simp: scan_symbol_head)
qed

lemma scan_symbols_total:
  assumes "\<forall>x \<in> set xs. NEEDS_COPYREL \<in> flags (syms s x) \<longrightarrow>
             (\<exists>f. sym_file (syms s x) = Some f \<and> file_is_dso s f)"
  shows "\<exists>s'. scan_symbols P Q xs s = Some s'"
  using assms
proof (induction xs arbitrary: s)
  case Nil
  then show ?case by simp
next
  case (Cons x xs)
  from scan_symbol_total [of s x P Q] Cons.prems obtain m where m: "scan_symbol P Q x s = Some m"
    by auto
  note st = scan_symbol_step [OF m]
  have "\<forall>z \<in> set xs. NEEDS_COPYREL \<in> flags (syms m z) \<longrightarrow>
             (\<exists>f. sym_file (syms m z) = Some f \<and> file_is_dso m f)"
  proof (intro ballI impI)
    fix z
    assume z: "z \<in> set xs" "NEEDS_COPYREL \<in> flags (syms m z)"
    then have "NEEDS_COPYREL \<in> flags (syms s z)" using st(4) [of z] by (simp split: if_splits)
    then obtain f where "sym_file (syms s z) = Some f" "file_is_dso s f"
      using Cons.prems z(1) by auto
    then show "\<exists>f. sym_file (syms m z) = Some f \<and> file_is_dso m f"
      using st(1) file_is_dso_kept [OF st(1)] by (auto simp: kept_def)
  qed
  from Cons.IH [OF this] show ?case using m by simp
qed

text \<open>
  C1. Let every aggregated symbol that needs a copy relocation be defined by a shared object,
  as the assertion of the pass demands; then \<^verbatim>\<open>scan_rels\<close> returns. Let the loop reach
  the aggregated symbol \<open>symb\<close> in the state \<open>s\<close>, with \<^verbatim>\<open>NEEDS_PLT\<close> among its flags.
  If the output is not PIC and the symbol is imported, the symbol is exported at the end of
  the pass, and from \<open>s\<close> to the end the pass adds it once to \<^verbatim>\<open>.plt\<close> and never to
  \<^verbatim>\<open>.plt.got\<close>. Otherwise, if the flags hold \<^verbatim>\<open>NEEDS_GOT\<close> too, it is added once to
  \<^verbatim>\<open>.plt.got\<close> and never to \<^verbatim>\<open>.plt\<close>; otherwise once to \<^verbatim>\<open>.plt\<close> and never to
  \<^verbatim>\<open>.plt.got\<close>.
\<close>

theorem scan_rels_plt:
  assumes dso: "\<forall>x \<in> set (aggregate ctx). NEEDS_COPYREL \<in> flags (syms ctx x) \<longrightarrow>
             (\<exists>f. sym_file (syms ctx x) = Some f \<and> file_is_dso ctx f)"
    and agg: "aggregate ctx = pre @ symb # post"
    and pre: "scan_symbols is_readonly find_aliases pre ctx = Some s"
    and plt: "NEEDS_PLT \<in> flags (syms s symb)"
  shows "\<exists>ctx'. scan_rels is_readonly find_aliases ctx = Some ctx' \<and>
           (if \<not> pic ctx \<and> is_imported (syms s symb) then
              is_exported (syms ctx' symb)
              \<and> count_list (plt_syms ctx') symb = Suc (count_list (plt_syms s) symb)
              \<and> count_list (pltgot_syms ctx') symb = count_list (pltgot_syms s) symb
            else if NEEDS_GOT \<in> flags (syms s symb) then
              count_list (pltgot_syms ctx') symb = Suc (count_list (pltgot_syms s) symb)
              \<and> count_list (plt_syms ctx') symb = count_list (plt_syms s) symb
            else
              count_list (plt_syms ctx') symb = Suc (count_list (plt_syms s) symb)
              \<and> count_list (pltgot_syms ctx') symb = count_list (pltgot_syms s) symb)"
proof -
  let ?P = is_readonly and ?Q = find_aliases
  from scan_symbols_total [OF dso, of ?P ?Q] obtain ctx' where
    r: "scan_symbols ?P ?Q (aggregate ctx) ctx = Some ctx'" by blast
  then have "scan_symbols ?P ?Q (symb # post) s = Some ctx'"
    using agg pre by (simp add: scan_symbols_append)
  then obtain m where m: "scan_symbol ?P ?Q symb s = Some m"
    "scan_symbols ?P ?Q post m = Some ctx'"
    by (auto split: option.splits)
  note st = scan_symbol_step [OF m(1)]
  have pic: "pic s = pic ctx" using scan_symbols_kept [OF pre] by (simp add: kept_def)
  have "flags (syms m symb) = {}" using st(4) [of symb] by simp
  from scan_symbols_done [OF m(2) this]
  have d: "count_list (plt_syms ctx') symb = count_list (plt_syms m) symb"
    "count_list (pltgot_syms ctx') symb = count_list (pltgot_syms m) symb" by simp_all
  have e: "is_exported (syms m symb) \<Longrightarrow> is_exported (syms ctx' symb)"
    using scan_symbols_kept [OF m(2)] by (simp add: kept_def)
  show ?thesis
    using r d e st(2,3,5) plt pic by (auto simp: scan_rels_def)
qed






lemmas scan_eval = scan_rels_def aggregate_def scan_symbol_def plt_step_def copyrel_step_def
  alias_step_def add_aux_def upd_sym_def file_is_dso_def Let_def

lemma agg_hello: "aggregate hello_ctx = [2, 3]"
  by (simp add: aggregate_def hello_ctx_def no_symbol_def)


lemma hello_ctx_run:
  "map_option (\<lambda>c. (plt_syms c, pltgot_syms c, dynbss_syms c, dynsym_syms c,
        map (\<lambda>r. (is_imported (syms c r), is_exported (syms c r), sym_value (syms c r))) [2, 3, 4]))
     (scan_rels (\<lambda>f symb. False) hello_aliases hello_ctx)
   = Some ([2], [], [3], [2, 3, 4],
        [(True, True, 0), (True, True, 0x4010), (True, True, 0x4010)])"
  by (simp add: scan_eval hello_ctx_def no_symbol_def hello_aliases_def)


theorem scan_rels_plt_witness:
  "\<exists>ctx'. scan_rels (\<lambda>f symb. False) hello_aliases hello_ctx = Some ctx'
      \<and> is_exported (syms ctx' 2)
      \<and> count_list (plt_syms ctx') 2 = 1 \<and> count_list (pltgot_syms ctx') 2 = 0"
proof -
  have h: "\<forall>x \<in> set (aggregate hello_ctx). NEEDS_COPYREL \<in> flags (syms hello_ctx x) \<longrightarrow>
             (\<exists>f. sym_file (syms hello_ctx x) = Some f \<and> file_is_dso hello_ctx f)"
    by (simp add: agg_hello) (simp add: hello_ctx_def no_symbol_def file_is_dso_def)
  have a: "aggregate hello_ctx = [] @ 2 # [3]" by (simp add: agg_hello)
  have p: "scan_symbols (\<lambda>f symb. False) hello_aliases [] hello_ctx = Some hello_ctx" by simp
  have n: "NEEDS_PLT \<in> flags (syms hello_ctx 2)" by (simp add: hello_ctx_def no_symbol_def)
  have c: "\<not> pic hello_ctx \<and> is_imported (syms hello_ctx 2)"
    by (simp add: hello_ctx_def no_symbol_def)
  have z: "count_list (plt_syms hello_ctx) 2 = 0" "count_list (pltgot_syms hello_ctx) 2 = 0"
    by (simp_all add: hello_ctx_def)
  from scan_rels_plt [OF h a p n] c z show ?thesis by simp
qed


section \<open>Properties of \<^verbatim>\<open>parse_symbol_version\<close>\<close>













end
